theory Spec2Isabelle
  imports Main "HOL-Library.Word"
begin

unbundle bit_operations_syntax

section \<open>The MQTT adapter of the server (server/mqtt.go)\<close>

text \<open>
  A shallow embedding of the parts of \<^verbatim>\<open>server/mqtt.go\<close> that the properties below
  are about: the packet reader and writer, the topic/subject conversion, the retained
  messages store, the per-connection publish state, and the CONNECT, PUBLISH, PUBACK and
  SUBSCRIBE handlers. Go's \<^verbatim>\<open>byte\<close> is \<open>8 word\<close>, \<^verbatim>\<open>uint16\<close> is \<open>16 word\<close>,
  \<^verbatim>\<open>int\<close> is \<open>int\<close> (no value here comes near 64 bits), and a Go \<^verbatim>\<open>string\<close> or
  \<^verbatim>\<open>[]byte\<close> is a list of bytes.
\<close>

subsection \<open>Bytes, errors, constants\<close>

type_synonym byte = "8 word"
type_synonym bytes = "byte list"

text \<open>The bytes of a string literal.\<close>

definition bytes_of :: "string \<Rightarrow> bytes" where
  "bytes_of s = map of_char s"

text \<open>
  Errors as values: \<^verbatim>\<open>io.ErrUnexpectedEOF\<close>, an error made by \<^verbatim>\<open>errors.New\<close> or
  \<^verbatim>\<open>fmt.Errorf\<close> (kept by the fixed text of its message), \<^verbatim>\<open>ErrAuthentication\<close>, and
  a run-time panic of Go (index out of range, nil dereference).
\<close>

datatype error = ErrUnexpectedEOF | ErrMsg string | ErrAuthentication | Panic

definition mqttPacketConnect :: byte where "mqttPacketConnect = 0x10"
definition mqttPacketConnectAck :: byte where "mqttPacketConnectAck = 0x20"
definition mqttPacketPub :: byte where "mqttPacketPub = 0x30"
definition mqttPacketPubAck :: byte where "mqttPacketPubAck = 0x40"
definition mqttPacketSubAck :: byte where "mqttPacketSubAck = 0x90"
definition mqttPacketFlagMask :: byte where "mqttPacketFlagMask = 0x0f"

definition mqttProtoLevel :: byte where "mqttProtoLevel = 0x4"

definition mqttConnFlagReserved :: byte where "mqttConnFlagReserved = 0x1"
definition mqttConnFlagCleanSession :: byte where "mqttConnFlagCleanSession = 0x2"
definition mqttConnFlagWillFlag :: byte where "mqttConnFlagWillFlag = 0x04"
definition mqttConnFlagWillQoS :: byte where "mqttConnFlagWillQoS = 0x18"
definition mqttConnFlagWillRetain :: byte where "mqttConnFlagWillRetain = 0x20"
definition mqttConnFlagPasswordFlag :: byte where "mqttConnFlagPasswordFlag = 0x40"
definition mqttConnFlagUsernameFlag :: byte where "mqttConnFlagUsernameFlag = 0x80"

definition mqttPubFlagRetain :: byte where "mqttPubFlagRetain = 0x01"
definition mqttPubFlagQoS :: byte where "mqttPubFlagQoS = 0x06"
definition mqttPubFlagDup :: byte where "mqttPubFlagDup = 0x08"
definition mqttPubQos1 :: byte where "mqttPubQos1 = 0x2"

definition mqttSubAckFailure :: byte where "mqttSubAckFailure = 0x80"

definition mqttConnAckRCConnectionAccepted :: byte where "mqttConnAckRCConnectionAccepted = 0x0"
definition mqttConnAckRCUnacceptableProtocolVersion :: byte where
  "mqttConnAckRCUnacceptableProtocolVersion = 0x1"
definition mqttConnAckRCIdentifierRejected :: byte where "mqttConnAckRCIdentifierRejected = 0x2"
definition mqttConnAckRCBadUserOrPassword :: byte where "mqttConnAckRCBadUserOrPassword = 0x4"
definition mqttConnAckRCNotAuthorized :: byte where "mqttConnAckRCNotAuthorized = 0x5"

definition mqttTopicLevelSep :: byte where "mqttTopicLevelSep = of_char CHR ''/''"
definition mqttSingleLevelWC :: byte where "mqttSingleLevelWC = of_char CHR ''+''"
definition mqttMultiLevelWC :: byte where "mqttMultiLevelWC = of_char CHR ''#''"

text \<open>
  \<^verbatim>\<open>btsep\<close>, \<^verbatim>\<open>pwc\<close> and \<^verbatim>\<open>fwc\<close> are the subject separator and wildcards of the
  server's subject grammar, \<^verbatim>\<open>CR_LF\<close> the line end of its protocol. Their declarations
  are in other files of the server; the values are the ones of the subject grammar.
\<close>

definition btsep :: byte where "btsep = of_char CHR ''.''"
definition pwc :: byte where "pwc = of_char CHR ''*''"
definition fwc :: byte where "fwc = of_char CHR ''>''"
definition CR_LF :: bytes where "CR_LF = [0x0d, 0x0a]"
definition LEN_CR_LF :: nat where "LEN_CR_LF = 2"

definition mqttMultiLevelSidSuffix :: bytes where
  "mqttMultiLevelSidSuffix = bytes_of '' fwc''"

subsection \<open>The reader\<close>

text \<open>
  The connection under the reader (\<^verbatim>\<open>mqttIOReader\<close>) is the bytes it will still
  deliver and the error that \<^verbatim>\<open>Read\<close> gives once they are used up: \<^verbatim>\<open>io.EOF\<close> or
  another error.
\<close>

record mqttIOReader =
  pending :: bytes
  ends_eof :: bool

record mqttReader =
  reader :: mqttIOReader
  buf :: bytes
  pos :: nat

definition reset :: "mqttReader \<Rightarrow> bytes \<Rightarrow> mqttReader" where
  "reset r b = r\<lparr>buf := b, pos := 0\<rparr>"

definition hasMore :: "mqttReader \<Rightarrow> bool" where
  "hasMore r = (pos r \<noteq> length (buf r))"

definition readByte :: "string \<Rightarrow> mqttReader \<Rightarrow> error + (byte \<times> mqttReader)" where
  "readByte field r =
     (if pos r = length (buf r) then Inl (ErrMsg (''error reading '' @ field))
      else if pos r < length (buf r) then Inr (buf r ! pos r, r\<lparr>pos := pos r + 1\<rparr>)
      else Inl Panic)"

text \<open>
  The body of the loop of \<^verbatim>\<open>readPacketLen\<close> up to the byte \<^verbatim>\<open>b\<close>: from the buffer
  when it has a byte left, else one byte from the connection.
\<close>

definition readPacketLen_byte :: "mqttReader \<Rightarrow> error + (byte \<times> mqttReader)" where
  "readPacketLen_byte r =
     (if pos r \<noteq> length (buf r) then
        (if pos r < length (buf r) then Inr (buf r ! pos r, r\<lparr>pos := pos r + 1\<rparr>)
         else Inl Panic)
      else
        (case pending (reader r) of
           [] \<Rightarrow> if ends_eof (reader r) then Inl ErrUnexpectedEOF
                 else Inl (ErrMsg ''error reading packet length'')
         | b # bs \<Rightarrow> Inr (b, r\<lparr>reader := (reader r)\<lparr>pending := bs\<rparr>\<rparr>)))"

definition unread :: "mqttReader \<Rightarrow> nat" where
  "unread r = (length (buf r) - pos r) + length (pending (reader r))"

function readPacketLen_loop :: "int \<Rightarrow> int \<Rightarrow> mqttReader \<Rightarrow> error + (int \<times> mqttReader)" where
  "readPacketLen_loop m v r =
     (case readPacketLen_byte r of
        Inl e \<Rightarrow> Inl e
      | Inr (b, r') \<Rightarrow>
          (let v' = v + uint (b AND 0x7f) * m in
           if b AND 0x80 = 0 then Inr (v', r')
           else (let m' = m * 0x80 in
                 if m' > 0x200000 then Inl (ErrMsg ''malformed variable int'')
                 else readPacketLen_loop m' v' r')))"
  by pat_completeness auto
termination
  by (relation "measure (\<lambda>(m, v, r). unread r)")
     (auto simp: readPacketLen_byte_def unread_def split: if_splits list.splits)

definition readPacketLen :: "mqttReader \<Rightarrow> error + (int \<times> mqttReader)" where
  "readPacketLen r = readPacketLen_loop 1 0 r"

declare readPacketLen_loop.simps [simp del]

text \<open>
  What is still to be read through the reader: the rest of the buffer, then what the
  connection delivers.
\<close>

definition input :: "mqttReader \<Rightarrow> bytes" where
  "input r = drop (pos r) (buf r) @ pending (reader r)"

text \<open>
  The variable-length encoding in the words of the protocol: base-128 digits, least
  significant first, in the low seven bits of each byte; the high bit of every byte but
  the last is set; at most four bytes.
\<close>

fun varint_value :: "bytes \<Rightarrow> int" where
  "varint_value [] = 0"
| "varint_value (b # bs) = uint (b AND 0x7f) + 128 * varint_value bs"

definition wellformed_varint :: "bytes \<Rightarrow> bool" where
  "wellformed_varint bs =
     (bs \<noteq> [] \<and> length bs \<le> 4 \<and> (\<forall>b \<in> set (butlast bs). b AND 0x80 \<noteq> 0) \<and>
      last bs AND 0x80 = 0)"

text \<open>
  \<^verbatim>\<open>ensurePacketInBuffer\<close> reads from the connection until \<^verbatim>\<open>pl\<close> bytes are there.
  A \<^verbatim>\<open>Read\<close> into \<open>k\<close> free bytes is taken to deliver all that is pending, up to
  \<open>k\<close>; with nothing pending it fails. The new buffer \<open>b\<close> has \<^verbatim>\<open>pl\<close> bytes, of
  which the first \<open>start\<close> are filled.
\<close>

function ensurePacketInBuffer_loop ::
  "nat \<Rightarrow> bytes \<Rightarrow> nat \<Rightarrow> mqttIOReader \<Rightarrow> error + (bytes \<times> mqttIOReader)" where
  "ensurePacketInBuffer_loop pl b start c =
     (if start \<noteq> pl then
        (if start > pl then Inl Panic
         else if pending c = [] then Inl (ErrMsg ''error ensuring protocol is loaded'')
         else
           (let n = min (pl - start) (length (pending c))
            in ensurePacketInBuffer_loop pl
                 (take start b @ take n (pending c) @ drop (start + n) b)
                 (start + n)
                 (c\<lparr>pending := drop n (pending c)\<rparr>)))
      else Inr (b, c))"
  by pat_completeness auto
termination
  by (relation "measure (\<lambda>(pl, b, start, c). pl - start)") (auto simp: min_def neq_Nil_conv)

declare ensurePacketInBuffer_loop.simps [simp del]

definition ensurePacketInBuffer :: "int \<Rightarrow> mqttReader \<Rightarrow> error + mqttReader" where
  "ensurePacketInBuffer pl r =
     (if int (length (buf r)) - int (pos r) \<ge> pl then Inr r
      else
        (let rest = drop (pos r) (buf r);
             b = rest @ replicate (nat pl - length rest) 0
         in case ensurePacketInBuffer_loop (nat pl) b (length rest) (reader r) of
              Inl e \<Rightarrow> Inl e
            | Inr (b, c) \<Rightarrow> Inr (reset (r\<lparr>reader := c\<rparr>) b)))"

definition readUint16 :: "string \<Rightarrow> mqttReader \<Rightarrow> error + (16 word \<times> mqttReader)" where
  "readUint16 field r =
     (if int (length (buf r)) - int (pos r) < 2 then Inl (ErrMsg (''error reading '' @ field))
      else Inr (push_bit 8 (ucast (buf r ! pos r)) OR ucast (buf r ! (pos r + 1)),
                r\<lparr>pos := pos r + 2\<rparr>))"

definition readBytes :: "string \<Rightarrow> bool \<Rightarrow> mqttReader \<Rightarrow> error + (bytes \<times> mqttReader)" where
  "readBytes field cpy r =
     (case readUint16 field r of
        Inl e \<Rightarrow> Inl e
      | Inr (luint, r) \<Rightarrow>
          (let l = unat luint in
           if l = 0 then Inr ([], r)
           else if pos r + l > length (buf r) then Inl (ErrMsg (''error reading '' @ field))
           else Inr (take l (drop (pos r) (buf r)), r\<lparr>pos := pos r + l\<rparr>)))"

definition readString :: "string \<Rightarrow> mqttReader \<Rightarrow> error + (bytes \<times> mqttReader)" where
  "readString field r = readBytes field False r"

text \<open>
  The reader is reached through a pointer, and a caller that goes on after a failed read
  finds the reader where the read left it. \<^verbatim>\<open>readByte\<close> and \<^verbatim>\<open>readUint16\<close> fail before
  they move it. \<^verbatim>\<open>readBytes\<close> has moved it past the two length bytes when it finds that
  the bytes are not all there, and \<^verbatim>\<open>ensurePacketInBuffer\<close> has taken from the
  connection what it could get. For the parser of CONNECT, which hands the reader on
  after an error, these two and \<^verbatim>\<open>readString\<close> are given once more, returning the reader
  in both cases; \<^verbatim>\<open>readString\<close> returns the empty string with an error.
\<close>

definition readBytes_st :: "string \<Rightarrow> bool \<Rightarrow> mqttReader \<Rightarrow> mqttReader \<times> (error + bytes)" where
  "readBytes_st field cpy r =
     (case readUint16 field r of
        Inl e \<Rightarrow> (r, Inl e)
      | Inr (luint, r) \<Rightarrow>
          (let l = unat luint in
           if l = 0 then (r, Inr [])
           else if pos r + l > length (buf r) then (r, Inl (ErrMsg (''error reading '' @ field)))
           else (r\<lparr>pos := pos r + l\<rparr>, Inr (take l (drop (pos r) (buf r))))))"

definition readString_st :: "string \<Rightarrow> mqttReader \<Rightarrow> mqttReader \<times> error option \<times> bytes" where
  "readString_st field r =
     (case readBytes_st field False r of
        (r, Inl e) \<Rightarrow> (r, Some e, [])
      | (r, Inr bs) \<Rightarrow> (r, None, bs))"

function ensurePacketInBuffer_loop_st ::
  "nat \<Rightarrow> bytes \<Rightarrow> nat \<Rightarrow> mqttIOReader \<Rightarrow> mqttIOReader \<times> (error + bytes)" where
  "ensurePacketInBuffer_loop_st pl b start c =
     (if start \<noteq> pl then
        (if start > pl then (c, Inl Panic)
         else if pending c = [] then (c, Inl (ErrMsg ''error ensuring protocol is loaded''))
         else
           (let n = min (pl - start) (length (pending c))
            in ensurePacketInBuffer_loop_st pl
                 (take start b @ take n (pending c) @ drop (start + n) b)
                 (start + n)
                 (c\<lparr>pending := drop n (pending c)\<rparr>)))
      else (c, Inr b))"
  by pat_completeness auto
termination
  by (relation "measure (\<lambda>(pl, b, start, c). pl - start)") (auto simp: min_def neq_Nil_conv)

declare ensurePacketInBuffer_loop_st.simps [simp del]

definition ensurePacketInBuffer_st :: "int \<Rightarrow> mqttReader \<Rightarrow> mqttReader \<times> error option" where
  "ensurePacketInBuffer_st pl r =
     (if int (length (buf r)) - int (pos r) \<ge> pl then (r, None)
      else
        (let rest = drop (pos r) (buf r);
             b = rest @ replicate (nat pl - length rest) 0
         in case ensurePacketInBuffer_loop_st (nat pl) b (length rest) (reader r) of
              (c, Inl e) \<Rightarrow> (r\<lparr>reader := c\<rparr>, Some e)
            | (c, Inr b) \<Rightarrow> (reset (r\<lparr>reader := c\<rparr>) b, None)))"

subsection \<open>The writer\<close>

text \<open>
  An \<^verbatim>\<open>mqttWriter\<close> is the bytes written so far; each function returns them with its
  own output appended. \<^verbatim>\<open>WriteVarInt\<close> loops until the value, shifted right by seven
  bits at each round, is zero: on a negative \<^verbatim>\<open>int\<close> that never happens, so the
  result is an option and \<open>None\<close> stands for a loop that does not end.
\<close>

definition WriteByte :: "byte \<Rightarrow> bytes \<Rightarrow> bytes" where
  "WriteByte b w = w @ [b]"

definition Write :: "bytes \<Rightarrow> bytes \<Rightarrow> bytes" where
  "Write bs w = w @ bs"

definition WriteUint16 :: "16 word \<Rightarrow> bytes \<Rightarrow> bytes" where
  "WriteUint16 i w = WriteByte (ucast i) (WriteByte (ucast (drop_bit 8 i)) w)"

definition WriteBytes :: "bytes \<Rightarrow> bytes \<Rightarrow> bytes" where
  "WriteBytes bs w = Write bs (WriteUint16 (of_nat (length bs)) w)"

partial_function (option) WriteVarInt :: "int \<Rightarrow> bytes \<Rightarrow> bytes option" where
  "WriteVarInt val w =
     (if drop_bit 7 val = 0
      then Some (WriteByte (if drop_bit 7 val > 0 then of_int (val AND 0x7f) OR 0x80
                            else of_int (val AND 0x7f)) w)
      else WriteVarInt (drop_bit 7 val)
             (WriteByte (if drop_bit 7 val > 0 then of_int (val AND 0x7f) OR 0x80
                         else of_int (val AND 0x7f)) w))"

declare WriteVarInt.simps [code]

subsection \<open>Topic and subject conversion\<close>

text \<open>
  A write \<^verbatim>\<open>a[j] = v\<close> into a slice: Go panics when \<open>j\<close> is out of range.
\<close>

definition set_at :: "bytes \<Rightarrow> nat \<Rightarrow> byte \<Rightarrow> error + bytes" where
  "set_at a j v = (if j < length a then Inr (a[j := v]) else Inl Panic)"

text \<open>
  One round of the loop of \<^verbatim>\<open>mqttToNATSSubjectConversion\<close>: the \<^verbatim>\<open>switch\<close> on
  \<^verbatim>\<open>mt[i]\<close>, giving \<open>res\<close> and \<open>j\<close> as they are before the \<^verbatim>\<open>j++\<close> that ends the
  round.
\<close>

definition mqttToNATSSubjectConversion_switch ::
  "bool \<Rightarrow> bytes \<Rightarrow> bytes \<Rightarrow> nat \<Rightarrow> nat \<Rightarrow> error + (bytes \<times> nat)" where
  "mqttToNATSSubjectConversion_switch wcOk mt res i j =
     (if mt ! i = btsep then
        (case set_at res j mqttTopicLevelSep of Inl e \<Rightarrow> Inl e | Inr res1 \<Rightarrow> Inr (res1, j))
      else if mt ! i = mqttTopicLevelSep then
        (if i = 0 then
           (case set_at res 0 mqttTopicLevelSep of Inl e \<Rightarrow> Inl e
            | Inr res1 \<Rightarrow>
                (case set_at res1 1 btsep of Inl e \<Rightarrow> Inl e | Inr res2 \<Rightarrow> Inr (res2, 1)))
         else
           (case set_at res j btsep of Inl e \<Rightarrow> Inl e
            | Inr res1 \<Rightarrow>
                if i = length mt - 1 then
                  (case set_at res1 (j + 1) mqttTopicLevelSep of Inl e \<Rightarrow> Inl e
                   | Inr res2 \<Rightarrow> Inr (res2, j + 1))
                else Inr (res1, j)))
      else if mt ! i = of_char CHR '' '' then
        (case set_at res j (of_char CHR ''_'') of Inl e \<Rightarrow> Inl e | Inr res1 \<Rightarrow> Inr (res1, j))
      else if mt ! i = of_char CHR ''+'' \<or> mt ! i = of_char CHR ''#'' then
        (if \<not> wcOk then Inl (ErrMsg ''wildcards not allowed in publish's topic'')
         else if mt ! i = mqttSingleLevelWC then
           (case set_at res j pwc of Inl e \<Rightarrow> Inl e | Inr res1 \<Rightarrow> Inr (res1, j))
         else
           (case set_at res j fwc of Inl e \<Rightarrow> Inl e | Inr res1 \<Rightarrow> Inr (res1, j)))
      else
        (case set_at res j (mt ! i) of Inl e \<Rightarrow> Inl e | Inr res1 \<Rightarrow> Inr (res1, j)))"

text \<open>
  The loop. When no new slice was made, \<^verbatim>\<open>res\<close> is \<^verbatim>\<open>mt\<close> itself, and a write to
  \<^verbatim>\<open>res\<close> is a write to \<^verbatim>\<open>mt\<close>: the round then reads \<^verbatim>\<open>mt[i]\<close> from the current
  \<open>res\<close>. The length of \<^verbatim>\<open>mt\<close> does not change.
\<close>

function mqttToNATSSubjectConversion_loop ::
  "bool \<Rightarrow> bool \<Rightarrow> bytes \<Rightarrow> bytes \<Rightarrow> nat \<Rightarrow> nat \<Rightarrow> error + bytes" where
  "mqttToNATSSubjectConversion_loop wcOk newSlice mt res i j =
     (if i < length mt then
        (case mqttToNATSSubjectConversion_switch wcOk (if newSlice then mt else res) res i j of
           Inl e \<Rightarrow> Inl e
         | Inr (res', j') \<Rightarrow>
             mqttToNATSSubjectConversion_loop wcOk newSlice mt res' (i + 1) (j' + 1))
      else Inr res)"
  by pat_completeness auto
termination
  by (relation "measure (\<lambda>(wcOk, newSlice, mt, res, i, j). length mt - i)") auto

declare mqttToNATSSubjectConversion_loop.simps [simp del]

text \<open>
  \<^verbatim>\<open>mqttToNATSSubjectConversion(mt, wcOk)\<close> returns the flag "a copy was made", the
  subject and an error. On an empty \<^verbatim>\<open>mt\<close> the read \<^verbatim>\<open>mt[0]\<close> panics.
\<close>

definition mqttToNATSSubjectConversion :: "bytes \<Rightarrow> bool \<Rightarrow> error + (bool \<times> bytes)" where
  "mqttToNATSSubjectConversion mt wcOk =
     (if length mt = 1 \<and> mt ! 0 = mqttTopicLevelSep then Inr (False, mt)
      else if mt = [] then Inl Panic
      else
        (let first = (mt ! 0 = mqttTopicLevelSep);
             final = (mt ! (length mt - 1) = mqttTopicLevelSep);
             resSize = length mt + (if first then 1 else 0) + (if final then 1 else 0);
             newSlice = (first \<or> final);
             res = (if newSlice then replicate resSize 0 else mt)
         in case mqttToNATSSubjectConversion_loop wcOk newSlice mt res 0 0 of
              Inl e \<Rightarrow> Inl e
            | Inr res' \<Rightarrow> Inr (newSlice, res')))"

definition mqttTopicToNATSPubSubject :: "bytes \<Rightarrow> error + (bool \<times> bytes)" where
  "mqttTopicToNATSPubSubject mt = mqttToNATSSubjectConversion mt False"

definition mqttFilterToNATSSubject :: "bytes \<Rightarrow> error + (bool \<times> bytes)" where
  "mqttFilterToNATSSubject filt = mqttToNATSSubjectConversion filt True"

text \<open>
  The loop of \<^verbatim>\<open>mqttFromNATSPubSubject\<close>, from \<open>i\<close> up to \<open>end\<close>; \<open>end\<close> is never
  more than the length of \<open>topic\<close>.
\<close>

function mqttFromNATSPubSubject_loop :: "bytes \<Rightarrow> nat \<Rightarrow> nat \<Rightarrow> bytes" where
  "mqttFromNATSPubSubject_loop topic i end =
     (if i < end then
        mqttFromNATSPubSubject_loop
          (if topic ! i = mqttTopicLevelSep then topic[i := btsep]
           else if topic ! i = btsep then topic[i := mqttTopicLevelSep]
           else if topic ! i = of_char CHR ''_'' then topic[i := of_char CHR '' '']
           else topic)
          (i + 1) end
      else topic)"
  by pat_completeness auto
termination
  by (relation "measure (\<lambda>(topic, i, end). end - i)") auto

declare mqttFromNATSPubSubject_loop.simps [simp del]

definition mqttFromNATSPubSubject :: "bytes \<Rightarrow> bytes" where
  "mqttFromNATSPubSubject subject =
     (if length subject = 1 \<and> subject ! 0 = mqttTopicLevelSep then subject
      else
        (let topic = subject; start = 0; end = length topic;
             (topic, start, end) =
               (if length subject > 2 \<and> take 2 subject = bytes_of ''/.''
                then ((drop 1 topic)[0 := mqttTopicLevelSep], 1, length (drop 1 topic))
                else (topic, start, end));
             (topic, end) =
               (if length subject > 2 \<and> drop (length subject - 2) subject = bytes_of ''./''
                then ((take (length topic - 1) topic)
                        [length (take (length topic - 1) topic) - 1 := mqttTopicLevelSep],
                      length (take (length topic - 1) topic) - 1)
                else (topic, end))
         in mqttFromNATSPubSubject_loop topic start end))"

text \<open>Returns true if the subject has more than 1 token and ends with ".>".\<close>

definition mqttNeedSubForLevelUp :: "bytes \<Rightarrow> bool" where
  "mqttNeedSubForLevelUp subject =
     (if length subject < 3 then False
      else if subject ! (length subject - 2) = of_char CHR ''.''
              \<and> subject ! (length subject - 1) = fwc then True
      else False)"

subsection \<open>The publish state of a connection\<close>

text \<open>
  A JetStream consumer (\<^verbatim>\<open>*Consumer\<close>, of the server's JetStream files) is kept by its
  durable name. A \<^verbatim>\<open>subscription\<close> is the server's record of a subscription; of its
  fields the adapter uses the subject, the sid and the MQTT part \<^verbatim>\<open>mqtt *mqttSub\<close>.
  A nil pointer or a nil map is \<open>None\<close>.
\<close>

type_synonym Consumer = bytes

record mqttAck =
  ackSubj :: bytes
  ack_jsConsKey :: bytes

record mqttSub =
  sub_qos :: byte
  prm :: "bytes option"
  jsConsKey :: bytes

record subscription =
  subject :: bytes
  sid :: bytes
  sub_mqtt :: "mqttSub option"

text \<open>
  A pointer to a subscription that is kept for its identity (the retained store removes
  from its index the very subscription it inserted) is the address with the subscription.
\<close>

type_synonym subscription_ptr = "nat \<times> subscription"

record mqttWill =
  will_topic :: bytes
  will_message :: bytes
  will_qos :: byte
  will_retain :: bool

record mqttConnectProto =
  clientID :: bytes
  rd :: int
  will :: "mqttWill option"
  cp_flags :: byte

record mqttPublish =
  pp_subject :: bytes
  msg :: bytes
  sz :: int
  pi :: "16 word"
  flags :: byte
  subjc :: bool
  source :: bytes
  pp_sub :: "subscription_ptr option"

text \<open>
  The \<^verbatim>\<open>mqtt\<close> struct of a connection, without the reader (passed on its own) and the
  messages stream (part of the server state below).
\<close>

record mqtt =
  cp :: "mqttConnectProto option"
  pp :: "mqttPublish option"
  ppi :: "16 word"
  cons :: "(bytes \<rightharpoonup> Consumer) option"
  acks :: "(16 word \<rightharpoonup> mqttAck) option"

text \<open>Reading a Go map that may be nil: a nil map has no entry.\<close>

definition lookup :: "('k \<rightharpoonup> 'v) option \<Rightarrow> 'k \<Rightarrow> 'v option" where
  "lookup m k = (case m of None \<Rightarrow> None | Some f \<Rightarrow> f k)"

definition mqttGetQoS :: "byte \<Rightarrow> byte" where
  "mqttGetQoS fl = drop_bit 1 (fl AND mqttPubFlagQoS)"

text \<open>
  \<^verbatim>\<open>mqttSerializePublishMsg\<close> writes a PUBLISH for the subscription \<open>sub\<close> of this
  connection into \<open>w\<close> and returns the flags it wrote; when the subscription and the
  published message both have a QoS above 0 it takes the next packet identifier from
  \<^verbatim>\<open>c.mqtt.ppi\<close> and, with a reply subject, records the pending ack.
\<close>

definition mqttSerializePublishMsg ::
  "mqtt \<Rightarrow> bytes \<Rightarrow> bytes \<Rightarrow> bytes \<Rightarrow> bytes \<Rightarrow> byte \<Rightarrow> subscription
     \<Rightarrow> (error + (byte \<times> bytes \<times> mqtt)) option" where
  "mqttSerializePublishMsg m w subj reply payload ppFlags sub =
     (let topic = mqttFromNATSPubSubject subj;
          pkLen = 2 + int (length topic) + int (length payload);
          fl = (if ppFlags \<noteq> 0 \<and> (ppFlags AND mqttPubFlagRetain) \<noteq> 0
                then 0 OR mqttPubFlagRetain else 0);
          pubQoS = (if ppFlags \<noteq> 0 then mqttGetQoS ppFlags else 0)
      in case sub_mqtt sub of
           None \<Rightarrow> Some (Inl Panic)
         | Some sm \<Rightarrow>
             (let (pkLen, pid, m, fl) =
                    (if sub_qos sm > 0 \<and> pubQoS > 0 then
                       (pkLen + 2, ppi m + 1,
                        m\<lparr>ppi := ppi m + 1,
                          acks := (if reply \<noteq> [] then
                                     Some ((case acks m of None \<Rightarrow> Map.empty | Some a \<Rightarrow> a)
                                            (ppi m + 1 \<mapsto>
                                               \<lparr>ackSubj = reply, ack_jsConsKey = jsConsKey sm\<rparr>))
                                   else acks m)\<rparr>,
                        fl OR mqttPubQos1)
                     else (pkLen, 0, m, fl))
              in case WriteVarInt pkLen (WriteByte (mqttPacketPub OR fl) w) of
                   None \<Rightarrow> None
                 | Some w1 \<Rightarrow>
                     Some (Inr (fl,
                                Write payload
                                  (if pid > 0 then WriteUint16 pid (WriteBytes topic w1)
                                   else WriteBytes topic w1),
                                m))))"

text \<open>
  \<^verbatim>\<open>mqttProcessPubAck\<close>: the new state of the connection and the call
  \<^verbatim>\<open>cons.processAck\<close> it makes, if any (the consumer and the ack subject).
\<close>

definition mqttProcessPubAck :: "mqtt \<Rightarrow> 16 word \<Rightarrow> mqtt \<times> (Consumer \<times> bytes) option" where
  "mqttProcessPubAck m pid =
     (case lookup (acks m) pid of
        None \<Rightarrow> (m, None)
      | Some ack \<Rightarrow>
          (let acks' = map_option (\<lambda>a. a(pid := None)) (acks m);
               call = (case lookup (cons m) (ack_jsConsKey ack) of
                         None \<Rightarrow> None
                       | Some c \<Rightarrow> Some (c, ackSubj ack));
               m1 = m\<lparr>acks := acks'\<rparr>
           in if (case acks' of None \<Rightarrow> True | Some a \<Rightarrow> dom a = {})
              then (m1\<lparr>ppi := 0\<rparr>, call)
              else (m1, call)))"

subsection \<open>The retained messages store\<close>

text \<open>
  Modelled from the spec: the \<^verbatim>\<open>Sublist\<close> (the server's subject index, in
  \<^verbatim>\<open>sublist.go\<close>, which is not among the sources here), as far as the retained store
  uses it: a wildcard-capable index holding the subscriptions inserted into it, from
  which \<^verbatim>\<open>Remove\<close> takes out the subscription it is given. It is modelled as the list
  of the subscriptions it holds, each with its address.
\<close>

type_synonym Sublist = "subscription_ptr list"

definition NewSublistWithCache :: Sublist where
  "NewSublistWithCache = []"

definition Insert :: "subscription_ptr \<Rightarrow> Sublist \<Rightarrow> Sublist" where
  "Insert sub s = s @ [sub]"

definition Remove :: "subscription_ptr \<Rightarrow> Sublist \<Rightarrow> Sublist" where
  "Remove sub s = filter (\<lambda>n. fst n \<noteq> fst sub) s"

record mqttRetained =
  sl :: "Sublist option"
  msgs :: "(bytes \<rightharpoonup> mqttPublish) option"

definition copyBytes :: "bytes \<Rightarrow> bytes" where
  "copyBytes b = b"

definition clone :: "mqttPublish \<Rightarrow> mqttPublish" where
  "clone p = (if \<not> subjc p then p\<lparr>pp_subject := copyBytes (pp_subject p)\<rparr> else p)"

text \<open>
  \<^verbatim>\<open>mqttHandlePubRetain\<close> works on the retained store of the server and on the message
  \<^verbatim>\<open>c.mqtt.pp\<close> being published; \<open>username\<close> is \<^verbatim>\<open>c.opts.Username\<close> and \<open>addr\<close> the
  address at which Go allocates the new \<^verbatim>\<open>subscription\<close> of a stored message. A method
  call on a nil \<^verbatim>\<open>*Sublist\<close> or with a nil subscription panics.
\<close>

definition mqttHandlePubRetain ::
  "nat \<Rightarrow> bytes \<Rightarrow> mqttRetained \<Rightarrow> mqttPublish \<Rightarrow> error + (mqttRetained \<times> mqttPublish)" where
  "mqttHandlePubRetain addr username r p =
     (case
        (if flags p AND mqttPubFlagRetain = 1 then
           (let key = pp_subject p in
            if sz p = 0 then
              (case msgs r of
                 None \<Rightarrow> Inr r
               | Some ms \<Rightarrow>
                   (case ms key of
                      None \<Rightarrow> Inr r
                    | Some epp \<Rightarrow>
                        (case (sl r, pp_sub epp) of
                           (Some s, Some sub) \<Rightarrow>
                             Inr (r\<lparr>msgs := Some (ms(key := None)), sl := Some (Remove sub s)\<rparr>)
                         | _ \<Rightarrow> Inl Panic)))
            else
              (let clonePP = clone p;
                   clonePP = clonePP\<lparr>source := username\<rparr>;
                   sub = (addr, \<lparr>subject = pp_subject clonePP, sid = [], sub_mqtt = None\<rparr>);
                   clonePP = clonePP\<lparr>pp_sub := Some sub\<rparr>;
                   r1 = (if msgs r = None
                         then r\<lparr>msgs := Some Map.empty, sl := Some NewSublistWithCache\<rparr>
                         else r)
               in case (msgs r1, sl r1) of
                    (Some ms, Some s) \<Rightarrow>
                      Inr (r1\<lparr>msgs := Some (ms(key \<mapsto> clonePP)), sl := Some (Insert sub s)\<rparr>)
                  | _ \<Rightarrow> Inl Panic))
         else Inr r)
      of Inl e \<Rightarrow> Inl e
       | Inr r' \<Rightarrow> Inr (r', p\<lparr>flags := flags p AND NOT mqttPubFlagRetain\<rparr>))"

subsection \<open>SUBSCRIBE\<close>

record mqttFilter =
  filt :: bytes
  copied :: bool
  qos :: byte

text \<open>
  \<^verbatim>\<open>mqttCreateSub\<close>: the subscription made by \<^verbatim>\<open>c.createSub\<close> for the subject and
  sid, with its MQTT part set to the given QoS (the callback is always
  \<^verbatim>\<open>mqttDeliverMsgCb\<close>).
\<close>

definition mqttCreateSub :: "bytes \<Rightarrow> bytes \<Rightarrow> byte \<Rightarrow> subscription" where
  "mqttCreateSub subj sd q =
     \<lparr>subject = subj, sid = sd, sub_mqtt = Some \<lparr>sub_qos = q, prm = None, jsConsKey = []\<rparr>\<rparr>"

text \<open>
  \<^verbatim>\<open>mqttProcessSubs\<close> registers subscriptions with the server, serializes retained
  messages and creates JetStream consumers through the calls below. Each of them works on
  the state \<open>'w\<close> of the server and of the connection, may change it in any way, and
  cannot reach the filters. They are parameters of the model, under the names of the
  calls in the source: what is proved of \<^verbatim>\<open>mqttProcessSubs\<close> holds whatever they do,
  for the functions of \<^verbatim>\<open>mqtt.go\<close> in particular. An error result is \<open>Some\<close> error,
  \<^verbatim>\<open>nil\<close> is \<open>None\<close>. The log call \<^verbatim>\<open>c.Errorf\<close> is left out.
\<close>

record 'w subsEnv =
  mqttSerializeRetainedMsgsForSub :: "subscription \<Rightarrow> 'w \<Rightarrow> subscription \<times> 'w"
  processSub :: "subscription \<Rightarrow> 'w \<Rightarrow> (subscription option \<times> error option) \<times> 'w"
  mqttProcessJSConsumerForSubject ::
    "bytes \<Rightarrow> bytes \<Rightarrow> byte \<Rightarrow> 'w \<Rightarrow> (Consumer option \<times> subscription option \<times> error option) \<times> 'w"
  mqttCleanupFailedSub ::
    "subscription option \<Rightarrow> Consumer option \<Rightarrow> subscription option \<Rightarrow> 'w \<Rightarrow> 'w"
  mqttAddJSConsumer :: "Consumer option \<Rightarrow> bytes \<Rightarrow> 'w \<Rightarrow> 'w"
  updateSession :: "mqttFilter list \<Rightarrow> bool \<Rightarrow> 'w \<Rightarrow> error option \<times> 'w"

text \<open>
  The lines of \<^verbatim>\<open>mqttProcessSubs\<close> that create one subscription, for the filter subject
  and again for the level-up subject: create, serialize the retained messages, process
  and, if that went well, set up the JetStream consumer.
\<close>

definition mqttProcessSubs_subscribe ::
  "'w subsEnv \<Rightarrow> bytes \<Rightarrow> bytes \<Rightarrow> byte \<Rightarrow> 'w
     \<Rightarrow> (subscription option \<times> Consumer option \<times> subscription option \<times> error option) \<times> 'w" where
  "mqttProcessSubs_subscribe env subj sd q w =
     (let sub = mqttCreateSub subj sd q;
          (sub, w) = mqttSerializeRetainedMsgsForSub env sub w;
          ((sub, err), w) = processSub env sub w
      in if err = None then
           (let ((jscons, jssub, err), w) = mqttProcessJSConsumerForSubject env subj sd q w
            in ((sub, jscons, jssub, err), w))
         else ((sub, None, None, err), w))"

text \<open>
  The body of the loop of \<^verbatim>\<open>mqttProcessSubs\<close> for one filter \<open>f\<close>. The filters are
  pointers and \<^verbatim>\<open>f.qos\<close> is updated in place: the body returns the filter as it is
  afterwards, with the subscriptions appended to \<open>subs\<close>.
\<close>

definition mqttProcessSubs_body ::
  "'w subsEnv \<Rightarrow> mqttFilter \<Rightarrow> subscription option list \<Rightarrow> 'w
     \<Rightarrow> mqttFilter \<times> subscription option list \<times> 'w" where
  "mqttProcessSubs_body env f subs w =
     (let f = (if qos f > 1 then f\<lparr>qos := 1\<rparr> else f);
          subj = (if \<not> copied f then copyBytes (filt f) else filt f);
          sd = subj;
          ((sub, jscons, jssub, err), w) = mqttProcessSubs_subscribe env subj sd (qos f) w
      in if err \<noteq> None then
           (f\<lparr>qos := mqttSubAckFailure\<rparr>, subs, mqttCleanupFailedSub env sub jscons jssub w)
         else if mqttNeedSubForLevelUp subj then
           (let fwcsubject = take (length subj - 2) subj;
                fwcsid = fwcsubject @ mqttMultiLevelSidSuffix;
                ((fwcsub, fwjscons, fwjssub, err), w) =
                   mqttProcessSubs_subscribe env fwcsubject fwcsid (qos f) w
            in if err \<noteq> None then
                 (f\<lparr>qos := mqttSubAckFailure\<rparr>, subs,
                  mqttCleanupFailedSub env fwcsub fwjscons fwjssub
                    (mqttCleanupFailedSub env sub jscons jssub w))
               else
                 (f, (subs @ [fwcsub]) @ [sub],
                  mqttAddJSConsumer env jscons sd (mqttAddJSConsumer env fwjscons fwcsid w)))
         else (f, subs @ [sub], mqttAddJSConsumer env jscons sd w))"

fun mqttProcessSubs_loop ::
  "'w subsEnv \<Rightarrow> mqttFilter list \<Rightarrow> subscription option list \<Rightarrow> 'w
     \<Rightarrow> mqttFilter list \<times> subscription option list \<times> 'w" where
  "mqttProcessSubs_loop env [] subs w = ([], subs, w)"
| "mqttProcessSubs_loop env (f # fs) subs w =
     (let (f', subs, w) = mqttProcessSubs_body env f subs w;
          (fs', subs, w) = mqttProcessSubs_loop env fs subs w
      in (f' # fs', subs, w))"

text \<open>
  \<^verbatim>\<open>mqttProcessSubs\<close> returns the subscriptions and an error; the model also returns the
  filters as the loop leaves them, and the state.
\<close>

definition mqttProcessSubs ::
  "'w subsEnv \<Rightarrow> mqttFilter list \<Rightarrow> bool \<Rightarrow> 'w
     \<Rightarrow> mqttFilter list \<times> subscription option list \<times> error option \<times> 'w" where
  "mqttProcessSubs env filters updSession w =
     (let (filters, subs, w) = mqttProcessSubs_loop env filters [] w;
          (err, w) = (if updSession then updateSession env filters True w else (None, w))
      in (filters, subs, err, w))"

text \<open>
  \<^verbatim>\<open>mqttEnqueueSubAck\<close>: the bytes it passes to \<^verbatim>\<open>c.enqueueProto\<close>.
\<close>

definition mqttEnqueueSubAck :: "16 word \<Rightarrow> mqttFilter list \<Rightarrow> bytes option" where
  "mqttEnqueueSubAck pid filters =
     (case WriteVarInt (2 + int (length filters)) (WriteByte mqttPacketSubAck []) of
        None \<Rightarrow> None
      | Some w \<Rightarrow> Some (foldl (\<lambda>w f. WriteByte (qos f) w) (WriteUint16 pid w) filters))"

text \<open>
  The result bytes of a SUBSCRIBE in the words of the protocol, for comparison with the
  code. Registering a subscription for a subject, sid and QoS in the state \<open>w\<close> fails
  when \<^verbatim>\<open>processSub\<close> returns an error or, if it does not, when
  \<^verbatim>\<open>mqttProcessJSConsumerForSubject\<close> returns one.
\<close>

definition subscribe_fails :: "'w subsEnv \<Rightarrow> bytes \<Rightarrow> bytes \<Rightarrow> byte \<Rightarrow> 'w \<Rightarrow> bool" where
  "subscribe_fails env subj sd q w =
     (let (sub, w1) = mqttSerializeRetainedMsgsForSub env (mqttCreateSub subj sd q) w;
          ((sub', e), w2) = processSub env sub w1
      in case e of
           Some x \<Rightarrow> True
         | None \<Rightarrow>
             (case snd (snd (fst (mqttProcessJSConsumerForSubject env subj sd q w2))) of
                Some x \<Rightarrow> True
              | None \<Rightarrow> False))"

text \<open>
  Processing a filter fails when registering the subscription for its subject, at the
  smaller of the requested QoS and 1, fails, or when the subject has more than one token
  and ends in \<^verbatim>\<open>.>\<close> and registering the subscription for the subject without that
  ending fails in the state that the first registration leaves.
\<close>

definition filter_fails :: "'w subsEnv \<Rightarrow> mqttFilter \<Rightarrow> 'w \<Rightarrow> bool" where
  "filter_fails env f w =
     (let q = min (qos f) 1; subj = filt f in
      if subscribe_fails env subj subj q w then True
      else if mqttNeedSubForLevelUp subj then
        subscribe_fails env (take (length subj - 2) subj)
          (take (length subj - 2) subj @ mqttMultiLevelSidSuffix) q
          (snd (mqttProcessSubs_subscribe env subj subj q w))
      else False)"

text \<open>
  One result byte for each filter, in the order of the filters: \<^verbatim>\<open>0x80\<close> for a filter
  whose processing fails, else the smaller of the requested QoS and 1; the next filter is
  processed in the state that processing this one leaves.
\<close>

fun suback_codes :: "'w subsEnv \<Rightarrow> mqttFilter list \<Rightarrow> 'w \<Rightarrow> bytes" where
  "suback_codes env [] w = []"
| "suback_codes env (f # fs) w =
     (if filter_fails env f w then mqttSubAckFailure else min (qos f) 1)
     # suback_codes env fs (snd (snd (mqttProcessSubs_body env f [] w)))"

subsection \<open>PUBLISH from the client\<close>

text \<open>
  What the handlers do to the world outside the adapter, in the order in which they do
  it: a message given to the server's router (\<^verbatim>\<open>processInboundClientMsg\<close>), a message
  appended to the messages stream of the account
  (\<^verbatim>\<open>directProcessInboundJetStreamMsg\<close>), bytes queued for the client
  (\<^verbatim>\<open>enqueueProto\<close>).
\<close>

datatype event =
    Routed bytes byte bytes
  | StreamAppend bytes bytes
  | EnqueueProto bytes

record pubState =
  retained :: mqttRetained
  trace :: "event list"

definition mqttParsePub ::
  "mqttReader \<Rightarrow> int \<Rightarrow> mqttPublish \<Rightarrow> error + (mqttPublish \<times> mqttReader)" where
  "mqttParsePub r pl p =
     (let q = drop_bit 1 (flags p AND mqttPubFlagQoS) in
      if q > 1 then Inl (ErrMsg ''publish QoS not supported'')
      else
        (case ensurePacketInBuffer pl r of
           Inl e \<Rightarrow> Inl e
         | Inr r \<Rightarrow>
             (let start = pos r in
              case readBytes ''topic'' False r of
                Inl e \<Rightarrow> Inl e
              | Inr (topic, r) \<Rightarrow>
                  if length topic = 0 then Inl (ErrMsg ''topic cannot be empty'')
                  else
                    (case mqttTopicToNATSPubSubject topic of
                       Inl e \<Rightarrow> Inl e
                     | Inr (cpy, subj) \<Rightarrow>
                         (case (if q > 0 then
                                  (case readUint16 ''packet identifier'' r of
                                     Inl e \<Rightarrow> Inl e
                                   | Inr (pid, r) \<Rightarrow>
                                       if pid = 0
                                       then Inl (ErrMsg ''with QoS, packet identifier cannot be 0'')
                                       else Inr (pid, r))
                                else Inr (pi p, r)) of
                            Inl e \<Rightarrow> Inl e
                          | Inr (pid, r) \<Rightarrow>
                              (let size = pl - (int (pos r) - int start) in
                               if size + 2 < 0 then Inl Panic
                               else if size > 0 then
                                 Inr (p\<lparr>pp_subject := subj, subjc := cpy, pi := pid, sz := size,
                                        msg := take (nat size) (drop (pos r) (buf r)) @ CR_LF\<rparr>,
                                      r\<lparr>pos := pos r + nat size\<rparr>)
                               else
                                 Inr (p\<lparr>pp_subject := subj, subjc := cpy, pi := pid, sz := size,
                                        msg := CR_LF\<rparr>, r)))))))"

text \<open>
  Modelled from the spec: \<^verbatim>\<open>processInboundClientMsg\<close> (in \<^verbatim>\<open>client.go\<close>, not among
  the sources here). The spec has the retain handling run first and then the fan-out to
  the subscribers: the model calls \<^verbatim>\<open>mqttHandlePubRetain\<close> and records the message, with
  the flags it then has, as given to the router.
\<close>

definition processInboundClientMsg ::
  "nat \<Rightarrow> bytes \<Rightarrow> mqttPublish \<Rightarrow> pubState \<Rightarrow> error + (mqttPublish \<times> pubState)" where
  "processInboundClientMsg addr username p st =
     (case mqttHandlePubRetain addr username (retained st) p of
        Inl e \<Rightarrow> Inl e
      | Inr (rt, p) \<Rightarrow>
          Inr (p, st\<lparr>retained := rt,
                      trace := trace st @ [Routed (pp_subject p) (flags p) (msg p)]\<rparr>))"

text \<open>
  Modelled from the spec: \<^verbatim>\<open>directProcessInboundJetStreamMsg\<close> (of the server's
  JetStream files) appends the payload to the messages stream at the subject.
\<close>

definition directProcessInboundJetStreamMsg :: "bytes \<Rightarrow> bytes \<Rightarrow> pubState \<Rightarrow> pubState" where
  "directProcessInboundJetStreamMsg subj payload st =
     st\<lparr>trace := trace st @ [StreamAppend subj payload]\<rparr>"

text \<open>
  \<^verbatim>\<open>mqttProcessPub\<close>. The message is reached through the pointer \<^verbatim>\<open>c.mqtt.pp\<close> while
  the server processes it, so what the retain handling does to its flags is seen by the
  test of the QoS that follows; the slice \<^verbatim>\<open>pp.msg[:len(pp.msg)-LEN_CR_LF]\<close> panics
  when the message is shorter than the line end.
\<close>

definition mqttProcessPub ::
  "nat \<Rightarrow> bytes \<Rightarrow> mqttPublish \<Rightarrow> pubState \<Rightarrow> error + (mqttPublish \<times> pubState)" where
  "mqttProcessPub addr username p st =
     (case processInboundClientMsg addr username p st of
        Inl e \<Rightarrow> Inl e
      | Inr (p, st) \<Rightarrow>
          if mqttGetQoS (flags p) > 0 then
            (if length (msg p) < LEN_CR_LF then Inl Panic
             else Inr (p, directProcessInboundJetStreamMsg (pp_subject p)
                            (take (length (msg p) - LEN_CR_LF) (msg p)) st))
          else Inr (p, st))"

definition mqttEnqueuePubAck :: "16 word \<Rightarrow> pubState \<Rightarrow> pubState" where
  "mqttEnqueuePubAck pid st =
     st\<lparr>trace := trace st @ [EnqueueProto [mqttPacketPubAck, 0x2, ucast (drop_bit 8 pid), ucast pid]]\<rparr>"

text \<open>
  The case \<^verbatim>\<open>mqttPacketPub\<close> of \<^verbatim>\<open>mqttParse\<close>, for the first byte \<open>b\<close> of the packet
  and its length \<open>pl\<close>: the error, if any, that ends the loop of \<^verbatim>\<open>mqttParse\<close>, the
  reader and the state.
\<close>

definition mqttParse_pub ::
  "nat \<Rightarrow> bytes \<Rightarrow> byte \<Rightarrow> int \<Rightarrow> mqttReader \<Rightarrow> pubState
     \<Rightarrow> error + (error option \<times> mqttReader \<times> pubState)" where
  "mqttParse_pub addr username b pl r st =
     (case mqttParsePub r pl
             \<lparr>pp_subject = [], msg = [], sz = 0, pi = 0, flags = b AND mqttPacketFlagMask,
              subjc = False, source = [], pp_sub = None\<rparr> of
        Inl Panic \<Rightarrow> Inl Panic
      | Inl e \<Rightarrow> Inr (Some e, r, st)
      | Inr (p, r) \<Rightarrow>
          (case mqttProcessPub addr username p st of
             Inl e \<Rightarrow> Inl e
           | Inr (p, st) \<Rightarrow>
               if pi p > 0 then Inr (None, r, mqttEnqueuePubAck (pi p) st)
               else Inr (None, r, st)))"

subsection \<open>CONNECT\<close>

definition mqttProtoName :: bytes where "mqttProtoName = bytes_of ''MQTT''"
definition mqttOldProtoName :: bytes where "mqttOldProtoName = bytes_of ''MQIsdp''"

text \<open>The fields \<^verbatim>\<open>Username\<close>, \<^verbatim>\<open>Password\<close> and \<^verbatim>\<open>Token\<close> of \<^verbatim>\<open>c.opts\<close>.\<close>

record clientOpts =
  Username :: bytes
  Password :: bytes
  Token :: bytes

text \<open>
  \<^verbatim>\<open>mqttParseConnect\<close> reads through the reader \<^verbatim>\<open>r\<close> and writes the user name, the
  password and the token into \<^verbatim>\<open>c.opts\<close>; both are reached through pointers, and the
  model returns them as they are when the function returns, with or without an error.
  The result proper is the return code with the error, or the parsed
  \<^verbatim>\<open>mqttConnectProto\<close>.

  The Will part, run when the Will flag is set. The check \<^verbatim>\<open>utf8.Valid\<close> of Go's library
  is the parameter \<open>utf8Valid\<close>. When \<^verbatim>\<open>mqttTopicToNATSPubSubject\<close> makes no copy it
  converts the Will topic where it lies in the read buffer, in bytes that the reader has
  passed and does not read again; the model leaves the buffer as it is.
\<close>

definition mqttParseConnect_will ::
  "(bytes \<Rightarrow> bool) \<Rightarrow> byte \<Rightarrow> bool \<Rightarrow> mqttReader \<Rightarrow> ((byte \<times> error) + mqttWill) \<times> mqttReader" where
  "mqttParseConnect_will utf8Valid wqos wretain r =
     (case readBytes_st ''Will topic'' False r of
        (r, Inl e) \<Rightarrow> (Inl (0, e), r)
      | (r, Inr topic) \<Rightarrow>
          if length topic = 0 then (Inl (0, ErrMsg ''empty Will topic not allowed''), r)
          else if \<not> utf8Valid topic then (Inl (0, ErrMsg ''invalide utf8 for Will topic''), r)
          else
            (case mqttTopicToNATSPubSubject topic of
               Inl e \<Rightarrow> (Inl (0, e), r)
             | Inr (cpy, topic) \<Rightarrow>
                 (let topic = (if \<not> cpy then copyBytes topic else topic) in
                  case readBytes_st ''Will message'' False r of
                    (r, Inl e) \<Rightarrow> (Inl (0, e), r)
                  | (r, Inr m) \<Rightarrow>
                      (Inr \<lparr>will_topic = topic, will_message = m @ CR_LF,
                            will_qos = wqos, will_retain = wretain\<rparr>, r))))"

text \<open>
  The user name and password part of \<^verbatim>\<open>mqttParseConnect\<close>. The assignments
  \<^verbatim>\<open>c.opts.Username, err = r.readString(...)\<close> and \<^verbatim>\<open>c.opts.Password, err = ...\<close> store
  what \<^verbatim>\<open>readString\<close> returns before the error is looked at.
\<close>

definition mqttParseConnect_user ::
  "(bytes \<Rightarrow> bool) \<Rightarrow> bool \<Rightarrow> bool \<Rightarrow> mqttReader \<Rightarrow> clientOpts
     \<Rightarrow> (byte \<times> error) option \<times> mqttReader \<times> clientOpts" where
  "mqttParseConnect_user utf8Valid hasUser hasPassword r opts =
     (case (if hasUser then
              (case readString_st ''user name'' r of
                 (r, err, u) \<Rightarrow>
                   (let opts = opts\<lparr>Username := u\<rparr> in
                    case err of
                      Some e \<Rightarrow> (Some (0, e), r, opts)
                    | None \<Rightarrow>
                        if u = [] then
                          (Some (mqttConnAckRCBadUserOrPassword,
                                 ErrMsg ''empty user name not allowed''), r, opts)
                        else if \<not> utf8Valid u then
                          (Some (mqttConnAckRCBadUserOrPassword,
                                 ErrMsg ''invalid utf8 for user name''), r, opts)
                        else (None, r, opts)))
            else (None, r, opts)) of
        (Some e, r, opts) \<Rightarrow> (Some e, r, opts)
      | (None, r, opts) \<Rightarrow>
          if hasPassword then
            (case readString_st ''password'' r of
               (r, err, pw) \<Rightarrow>
                 (let opts = opts\<lparr>Password := pw\<rparr> in
                  case err of
                    Some e \<Rightarrow> (Some (0, e), r, opts)
                  | None \<Rightarrow> (None, r, opts\<lparr>Token := Password opts\<rparr>)))
          else (None, r, opts))"

text \<open>
  \<^verbatim>\<open>mqttParseConnect\<close>. \<open>nuid\<close> is what \<^verbatim>\<open>nuid.Next()\<close> returns when it is called.
  The read deadline \<^verbatim>\<open>time.Duration(float64(ka)*1.5) * time.Second\<close> is in nanoseconds:
  the product \<open>ka * 1.5\<close> is exact in a \<^verbatim>\<open>float64\<close> and the conversion truncates it.
\<close>

definition mqttParseConnect ::
  "(bytes \<Rightarrow> bool) \<Rightarrow> bytes \<Rightarrow> mqttReader \<Rightarrow> int \<Rightarrow> clientOpts
     \<Rightarrow> ((byte \<times> error) + mqttConnectProto) \<times> mqttReader \<times> clientOpts" where
  "mqttParseConnect utf8Valid nuid r pl opts =
     (case ensurePacketInBuffer_st pl r of
        (r, Some e) \<Rightarrow> (Inl (0, e), r, opts)
      | (r, None) \<Rightarrow>
     (case readBytes_st ''protocol name'' False r of
        (r, Inl e) \<Rightarrow> (Inl (0, e), r, opts)
      | (r, Inr proto) \<Rightarrow>
     if proto \<noteq> mqttProtoName then
       (if proto = mqttOldProtoName then (Inl (0, ErrMsg ''older protocol not supported''), r, opts)
        else (Inl (0, ErrMsg ''expected connect packet with protocol name MQTT''), r, opts))
     else
     (case readByte ''protocol level'' r of
        Inl e \<Rightarrow> (Inl (0, e), r, opts)
      | Inr (level, r) \<Rightarrow>
     if level \<noteq> mqttProtoLevel then
       (Inl (mqttConnAckRCUnacceptableProtocolVersion, ErrMsg ''unacceptable protocol version''),
        r, opts)
     else
     (case readByte ''flags'' r of
        Inl e \<Rightarrow> (Inl (0, e), r, opts)
      | Inr (fl, r) \<Rightarrow>
     if fl AND mqttConnFlagReserved \<noteq> 0 then
       (Inl (0, ErrMsg ''connect flags reserved bit not set to 0''), r, opts)
     else
     (let wqos = drop_bit 3 (fl AND mqttConnFlagWillQoS);
          wretain = (fl AND mqttConnFlagWillRetain \<noteq> 0)
      in
     if fl AND mqttConnFlagWillFlag = 0 \<and> wqos \<noteq> 0 then
       (Inl (0, ErrMsg ''if Will flag is set to 0, Will QoS must be 0 too''), r, opts)
     else if fl AND mqttConnFlagWillFlag = 0 \<and> wretain then
       (Inl (0, ErrMsg ''if Will flag is set to 0, Will Retain flag must be 0 too''), r, opts)
     else if fl AND mqttConnFlagWillFlag \<noteq> 0 \<and> wqos = 3 then
       (Inl (0, ErrMsg ''if Will flag is set to 1, Will QoS can be 0, 1 or 2''), r, opts)
     else
     (let hasWill = (fl AND mqttConnFlagWillFlag \<noteq> 0);
          hasUser = (fl AND mqttConnFlagUsernameFlag \<noteq> 0);
          hasPassword = (fl AND mqttConnFlagPasswordFlag \<noteq> 0)
      in
     if \<not> hasUser \<and> hasPassword then
       (Inl (0, ErrMsg ''password flag set but username flag is not''), r, opts)
     else
     (case readUint16 ''keep alive'' r of
        Inl e \<Rightarrow> (Inl (0, e), r, opts)
      | Inr (ka, r) \<Rightarrow>
     (let keep = (if ka > 0 then (uint ka * 3 div 2) * 1000000000 else 0) in
     (case readString_st ''client ID'' r of
        (r, Some e, cid) \<Rightarrow> (Inl (0, e), r, opts)
      | (r, None, cid) \<Rightarrow>
     if cid = [] \<and> fl AND mqttConnFlagCleanSession = 0 then
       (Inl (mqttConnAckRCIdentifierRejected,
             ErrMsg ''when client ID is empty, clean session flag must be set to 1''), r, opts)
     else
     (let cid = (if cid = [] then nuid else cid) in
     if \<not> utf8Valid cid then
       (Inl (mqttConnAckRCIdentifierRejected, ErrMsg ''invalid utf8 for client ID''), r, opts)
     else
     (case (if hasWill then
              (case mqttParseConnect_will utf8Valid wqos wretain r of
                 (Inl e, r) \<Rightarrow> (Inl e, r)
               | (Inr wl, r) \<Rightarrow> (Inr (Some wl), r))
            else (Inr None, r)) of
        (Inl e, r) \<Rightarrow> (Inl e, r, opts)
      | (Inr wl, r) \<Rightarrow>
     (case mqttParseConnect_user utf8Valid hasUser hasPassword r opts of
        (Some e, r, opts) \<Rightarrow> (Inl e, r, opts)
      | (None, r, opts) \<Rightarrow>
          (Inr \<lparr>clientID = cid, rd = keep, will = wl, cp_flags = fl\<rparr>, r, opts)))))))))))))"

text \<open>
  A field of a packet as the protocol has it on the wire: its length in two bytes, the
  most significant first, and then its bytes.
\<close>

definition str16 :: "bytes \<Rightarrow> bytes" where
  "str16 bs = [ucast (drop_bit 8 (of_nat (length bs) :: 16 word)),
               ucast (of_nat (length bs) :: 16 word)] @ bs"

subsection \<open>Sessions and the handling of CONNECT\<close>

text \<open>
  The reasons for closing a connection that the adapter uses (of the server's
  \<^verbatim>\<open>ClosedState\<close>).
\<close>

datatype ClosedState = ClientClosed | AuthenticationViolation | DuplicateClientID

text \<open>
  A connection: its \<^verbatim>\<open>mqtt\<close> struct, the flag \<^verbatim>\<open>connectReceived\<close>, its options, the
  protocol bytes queued for it with \<^verbatim>\<open>enqueueProto\<close>, and the reason with which
  \<^verbatim>\<open>closeConnection\<close> was called on it from its own read loop, if it was. Connections
  are referred to by their address.
\<close>

record client =
  c_mqtt :: mqtt
  connectReceived :: bool
  c_opts :: clientOpts
  out :: "bytes list"
  closed :: "ClosedState option"

record mqttSession =
  sess_c :: "nat option"
  sess_clean :: bool
  sess_subs :: "bytes \<rightharpoonup> byte"
  sess_cons :: "(bytes \<rightharpoonup> Consumer) option"
  sseq :: nat

record mqttPersistedSession =
  ps_ID :: bytes
  ps_Clean :: bool
  ps_Subs :: "bytes \<rightharpoonup> byte"
  ps_Cons :: "(bytes \<rightharpoonup> bytes) option"

text \<open>
  The sessions manager of an account: its sessions by client ID, and whether its sessions
  stream is there (\<^verbatim>\<open>sstream != nil\<close>).
\<close>

record mqttAccountSessionManager =
  sessions :: "bytes \<rightharpoonup> mqttSession"
  sstream :: bool

text \<open>
  The server as the CONNECT handler sees it: the connections, the sessions manager of the
  account of the connecting client (\<^verbatim>\<open>sm.sessions[accName]\<close>, \<open>None\<close> before the first
  CONNECT of the account), the calls \<^verbatim>\<open>go ec.closeConnection(reason)\<close> started so far,
  and the rest of the server \<open>'h\<close> (authentication, JetStream, subscriptions).
\<close>

record 'h srv =
  clients :: "nat \<rightharpoonup> client"
  sessmgr :: "mqttAccountSessionManager option"
  spawned :: "(nat \<times> ClosedState) list"
  host :: 'h

text \<open>
  The calls of the CONNECT handler into the rest of the server are parameters, under the
  names of the source: the authorization of the client, whether JetStream is enabled for
  the account, the initialization of a new sessions manager (\<^verbatim>\<open>init\<close>, which creates
  the streams and recovers the sessions), the deletion of the consumers of a session
  (\<^verbatim>\<open>cons.Delete()\<close> for each of them), \<^verbatim>\<open>DeleteMsg\<close> and \<^verbatim>\<open>StoreMsg\<close> on the sessions
  stream, the order in which Go goes through the subscriptions map of a session, and the
  calls made by \<^verbatim>\<open>mqttProcessSubs\<close>, which work on the rest of the server and on the
  connecting client.
\<close>

record 'h connEnv =
  isClientAuthorized :: "nat \<Rightarrow> 'h \<Rightarrow> bool \<times> 'h"
  JetStreamEnabled :: "'h \<Rightarrow> bool"
  asm_init :: "'h \<Rightarrow> (error + mqttAccountSessionManager) \<times> 'h"
  deleteConsumers :: "(bytes \<rightharpoonup> Consumer) \<Rightarrow> 'h \<Rightarrow> 'h"
  DeleteMsg :: "nat \<Rightarrow> 'h \<Rightarrow> 'h"
  StoreMsg :: "mqttPersistedSession \<Rightarrow> 'h \<Rightarrow> (error + nat) \<times> 'h"
  rangeSubs :: "(bytes \<rightharpoonup> byte) \<Rightarrow> (bytes \<times> byte) list"
  subs_env :: "('h \<times> client) subsEnv"

definition getOrCreateAccountSessionManager ::
  "'h connEnv \<Rightarrow> 'h srv \<Rightarrow> (error + mqttAccountSessionManager) \<times> 'h srv" where
  "getOrCreateAccountSessionManager env s =
     (case sessmgr s of
        Some a \<Rightarrow> (Inr a, s)
      | None \<Rightarrow>
          if \<not> JetStreamEnabled env (host s) then
            (Inl (ErrMsg ''JetStream must be enabled for account used by MQTT client ID''), s)
          else
            (case asm_init env (host s) of
               (Inl e, h) \<Rightarrow> (Inl e, s\<lparr>host := h\<rparr>)
             | (Inr a, h) \<Rightarrow> (Inr a, s\<lparr>host := h, sessmgr := Some a\<rparr>)))"

definition clearSession ::
  "'h connEnv \<Rightarrow> mqttAccountSessionManager \<Rightarrow> mqttSession \<Rightarrow> 'h \<Rightarrow> mqttSession \<times> 'h" where
  "clearSession env a sess h =
     (let (sess, h) = (case sess_cons sess of
                         None \<Rightarrow> (sess, h)
                       | Some cs \<Rightarrow> (sess\<lparr>sess_cons := Some Map.empty\<rparr>, deleteConsumers env cs h));
          sess = sess\<lparr>sess_subs := Map.empty\<rparr>
      in if sstream a \<and> sseq sess \<noteq> 0
         then (sess\<lparr>sseq := 0\<rparr>, DeleteMsg env (sseq sess) h)
         else (sess, h))"

definition saveSession ::
  "'h connEnv \<Rightarrow> bytes \<Rightarrow> client \<Rightarrow> mqttSession \<Rightarrow> 'h \<Rightarrow> error option \<times> mqttSession \<times> 'h" where
  "saveSession env cid cl sess h =
     (let ps = \<lparr>ps_ID = cid, ps_Clean = sess_clean sess, ps_Subs = sess_subs sess,
                ps_Cons = (case cons (c_mqtt cl) of
                             None \<Rightarrow> None
                           | Some cs \<Rightarrow> if dom cs = {} then None else Some cs)\<rparr>
      in case StoreMsg env ps h of
           (Inl e, h) \<Rightarrow> (Some e, sess, h)
         | (Inr newSeq, h) \<Rightarrow>
             (None, sess\<lparr>sseq := newSeq\<rparr>,
              if sseq sess \<noteq> 0 then DeleteMsg env (sseq sess) h else h))"

text \<open>
  The part of \<^verbatim>\<open>mqttProcessConnect\<close> for an existing session \<open>es\<close>: clear it if a clean
  session is asked for or was, take over from the connection bound to it, if any, and
  bind the session to the new connection \<open>c\<close>. It gives the session, the consumers handed
  to the connection, the "session present" flag and the server.
\<close>

definition mqttProcessConnect_existing ::
  "'h connEnv \<Rightarrow> mqttAccountSessionManager \<Rightarrow> nat \<Rightarrow> bool \<Rightarrow> mqttSession \<Rightarrow> 'h srv
     \<Rightarrow> error + (mqttSession \<times> (bytes \<rightharpoonup> Consumer) option \<times> bool \<times> 'h srv)" where
  "mqttProcessConnect_existing env a c cleanSess es s =
     (let (es, sessp, s) =
            (if cleanSess \<or> sess_clean es then
               (let (es, h) = clearSession env a es (host s) in (es, False, s\<lparr>host := h\<rparr>))
             else (es, True, s))
      in case (case sess_c es of
                 None \<Rightarrow> Inr s
               | Some ec \<Rightarrow>
                   (case clients s ec of
                      None \<Rightarrow> Inl Panic
                    | Some e \<Rightarrow>
                        (case cp (c_mqtt e) of
                           None \<Rightarrow> Inl Panic
                         | Some ecp \<Rightarrow>
                             Inr (s\<lparr>clients := (clients s)
                                       (ec \<mapsto> e\<lparr>c_mqtt := (c_mqtt e)\<lparr>cp := Some (ecp\<lparr>will := None\<rparr>)\<rparr>\<rparr>),
                                     spawned := spawned s @ [(ec, DuplicateClientID)]\<rparr>)))) of
           Inl e \<Rightarrow> Inl e
         | Inr s \<Rightarrow>
             Inr (es\<lparr>sess_c := Some c, sess_clean := cleanSess, sess_cons := None\<rparr>,
                  sess_cons es, sessp, s))"

text \<open>
  \<^verbatim>\<open>mqttProcessConnect\<close> returns the return code, the read deadline, the "session
  present" flag and an error. The messages stream \<^verbatim>\<open>c.mqtt.stream\<close> is not part of the
  model.
\<close>

definition mqttProcessConnect ::
  "'h connEnv \<Rightarrow> nat \<Rightarrow> mqttConnectProto \<Rightarrow> 'h srv
     \<Rightarrow> error + ((byte \<times> int \<times> bool \<times> error option) \<times> 'h srv)" where
  "mqttProcessConnect env c cpr s =
     (case isClientAuthorized env c (host s) of
        (False, h) \<Rightarrow>
          Inr ((mqttConnAckRCNotAuthorized, 0, False, Some ErrAuthentication), s\<lparr>host := h\<rparr>)
      | (True, h) \<Rightarrow>
     (case getOrCreateAccountSessionManager env (s\<lparr>host := h\<rparr>) of
        (Inl e, s) \<Rightarrow> Inr ((0, 0, False, Some e), s)
      | (Inr a, s) \<Rightarrow>
     (case clients s c of
        None \<Rightarrow> Inl Panic
      | Some cl \<Rightarrow>
     (let cleanSess = (cp_flags cpr AND mqttConnFlagCleanSession \<noteq> 0) in
      case (case sessions a (clientID cpr) of
              Some es \<Rightarrow> mqttProcessConnect_existing env a c cleanSess es s
            | None \<Rightarrow>
                (let es = \<lparr>sess_c = Some c, sess_clean = cleanSess, sess_subs = Map.empty,
                           sess_cons = None, sseq = 0\<rparr>;
                     (err, es, h) = saveSession env (clientID cpr) cl es (host s)
                 in Inr (es, None, False, s\<lparr>host := h\<rparr>))) of
        Inl e \<Rightarrow> Inl e
      | Inr (es, cs, sessp, s) \<Rightarrow>
     (case clients s c of
        None \<Rightarrow> Inl Panic
      | Some cl \<Rightarrow>
     (let a = a\<lparr>sessions := (sessions a)(clientID cpr \<mapsto> es)\<rparr>;
          cl = cl\<lparr>connectReceived := True, c_mqtt := (c_mqtt cl)\<lparr>cp := Some cpr, cons := cs\<rparr>\<rparr>;
          s = s\<lparr>sessmgr := Some a, clients := (clients s)(c \<mapsto> cl)\<rparr>
      in if sess_subs es \<noteq> Map.empty then
           (let filters = map (\<lambda>(subj, q). \<lparr>filt = subj, copied = True, qos = q\<rparr>)
                              (rangeSubs env (sess_subs es));
                (filters, subs, err, (h, cl)) =
                   mqttProcessSubs (subs_env env) filters False (host s, cl);
                s = s\<lparr>host := h, clients := (clients s)(c \<mapsto> cl)\<rparr>
            in if err \<noteq> None then Inr ((0, 0, False, err), s)
               else Inr ((mqttConnAckRCConnectionAccepted, rd cpr, sessp, None), s))
         else Inr ((mqttConnAckRCConnectionAccepted, rd cpr, sessp, None), s)))))))"

definition mqttEnqueueConnAck :: "byte \<Rightarrow> bool \<Rightarrow> client \<Rightarrow> client" where
  "mqttEnqueueConnAck rc sessionPresent cl =
     cl\<lparr>out := out cl @ [[mqttPacketConnectAck, 2,
                           (if rc = 0 \<and> sessionPresent then 1 else 0), rc]]\<rparr>"

text \<open>
  \<^verbatim>\<open>mqttHandleWill\<close>, run when a connection is closed: the message it passes to
  \<^verbatim>\<open>mqttProcessPub\<close>, if the connection has a Will.
\<close>

definition mqttHandleWill :: "client \<Rightarrow> mqttPublish option" where
  "mqttHandleWill cl =
     (case cp (c_mqtt cl) of
        None \<Rightarrow> None
      | Some cpr \<Rightarrow>
          (case will cpr of
             None \<Rightarrow> None
           | Some wl \<Rightarrow>
               Some \<lparr>pp_subject = will_topic wl, msg = will_message wl,
                     sz = int (length (will_message wl)) - int LEN_CR_LF, pi = 0,
                     flags = (if will_retain wl then push_bit 1 (will_qos wl) OR mqttPubFlagRetain
                              else push_bit 1 (will_qos wl)),
                     subjc = False, source = [], pp_sub = None\<rparr>))"

text \<open>
  The case \<^verbatim>\<open>mqttPacketConnect\<close> of \<^verbatim>\<open>mqttParse\<close> for the connection \<open>c\<close>: the error
  that ends the loop, if any, the flag \<open>connected\<close>, the read deadline, the reader and
  the server.
\<close>

definition mqttParse_connect ::
  "'h connEnv \<Rightarrow> (bytes \<Rightarrow> bool) \<Rightarrow> bytes \<Rightarrow> nat \<Rightarrow> bool \<Rightarrow> int \<Rightarrow> int \<Rightarrow> mqttReader \<Rightarrow> 'h srv
     \<Rightarrow> error + (error option \<times> bool \<times> int \<times> mqttReader \<times> 'h srv)" where
  "mqttParse_connect env utf8Valid nuid c connected keep pl r s =
     (if connected then Inr (Some (ErrMsg ''second connect packet''), connected, keep, r, s)
      else
        (case clients s c of
           None \<Rightarrow> Inl Panic
         | Some cl \<Rightarrow>
        (case (case mqttParseConnect utf8Valid nuid r pl (c_opts cl) of
                 (Inl (rc, e), r, opts) \<Rightarrow>
                   Inr (rc, keep, False, Some e, connected, r,
                        s\<lparr>clients := (clients s)(c \<mapsto> cl\<lparr>c_opts := opts\<rparr>)\<rparr>)
               | (Inr cpr, r, opts) \<Rightarrow>
                   (case mqttProcessConnect env c cpr
                           (s\<lparr>clients := (clients s)(c \<mapsto> cl\<lparr>c_opts := opts\<rparr>)\<rparr>) of
                      Inl e \<Rightarrow> Inl e
                    | Inr ((rc, keep', sessp, err), s) \<Rightarrow>
                        Inr (rc, keep', sessp, err, (if err = None then True else connected), r, s))) of
           Inl e \<Rightarrow> Inl e
         | Inr (rc, keep, sessp, err, connected, r, s) \<Rightarrow>
             (case clients s c of
                None \<Rightarrow> Inl Panic
              | Some cl \<Rightarrow>
                  (let cl = (if err = None \<or> rc \<noteq> 0 then mqttEnqueueConnAck rc sessp cl else cl);
                       cl = (if err = Some ErrAuthentication
                             then cl\<lparr>closed := Some AuthenticationViolation\<rparr> else cl)
                   in Inr (err, connected, keep, r, s\<lparr>clients := (clients s)(c \<mapsto> cl)\<rparr>))))))"

text \<open>What is left in the buffer of the reader.\<close>

definition remaining :: "mqttReader \<Rightarrow> bytes" where
  "remaining r = drop (pos r) (buf r)"

subsection \<open>Closed forms of the two conversions\<close>

text \<open>
  What the loop of \<^verbatim>\<open>mqttToNATSSubjectConversion\<close> writes for one byte of the topic that
  is neither a first nor a last \<^verbatim>\<open>/\<close>, and what the loop of \<^verbatim>\<open>mqttFromNATSPubSubject\<close>
  writes for one byte of the subject.
\<close>

definition topic_char :: "byte \<Rightarrow> byte" where
  "topic_char c =
     (if c = btsep then mqttTopicLevelSep
      else if c = mqttTopicLevelSep then btsep
      else if c = of_char CHR '' '' then of_char CHR ''_''
      else if c = mqttSingleLevelWC then pwc
      else if c = mqttMultiLevelWC then fwc
      else c)"

definition subject_char :: "byte \<Rightarrow> byte" where
  "subject_char c =
     (if c = mqttTopicLevelSep then btsep
      else if c = btsep then mqttTopicLevelSep
      else if c = of_char CHR ''_'' then of_char CHR '' ''
      else c)"

text \<open>
  The bytes written for the byte \<open>c\<close> at position \<open>k\<close> of a topic of length \<open>n\<close>, and for
  the bytes of a topic from position \<open>k\<close> on: a first \<^verbatim>\<open>/\<close> gives \<^verbatim>\<open>/.\<close>, a last one
  \<^verbatim>\<open>./\<close>.
\<close>

definition enc_char :: "nat \<Rightarrow> nat \<Rightarrow> byte \<Rightarrow> bytes" where
  "enc_char n k c =
     (if c = mqttTopicLevelSep \<and> k = 0 then [mqttTopicLevelSep, btsep]
      else if c = mqttTopicLevelSep \<and> k = n - 1 then [btsep, mqttTopicLevelSep]
      else [topic_char c])"

fun enc_from :: "nat \<Rightarrow> nat \<Rightarrow> bytes \<Rightarrow> bytes" where
  "enc_from n k [] = []"
| "enc_from n k (c # cs) = enc_char n k c @ enc_from n (Suc k) cs"

definition enc_first :: "byte \<Rightarrow> bytes" where
  "enc_first a = (if a = mqttTopicLevelSep then [mqttTopicLevelSep, btsep] else [topic_char a])"

definition enc_last :: "byte \<Rightarrow> bytes" where
  "enc_last z = (if z = mqttTopicLevelSep then [btsep, mqttTopicLevelSep] else [topic_char z])"

text \<open>The conversion fails on \<^verbatim>\<open>+\<close> and \<^verbatim>\<open>#\<close> unless wildcards are allowed.\<close>

definition wild_ok :: "bool \<Rightarrow> bytes \<Rightarrow> bool" where
  "wild_ok wcOk cs = (wcOk \<or> (\<forall>c\<in>set cs. c \<noteq> mqttSingleLevelWC \<and> c \<noteq> mqttMultiLevelWC))"

text \<open>
  A byte that is no space and no MQTT wildcard, and the shape of every subject that
  \<^verbatim>\<open>mqttToNATSSubjectConversion\<close> returns: not empty, no \<^verbatim>\<open>.\<close> at either end, such bytes
  only.
\<close>

definition plain_char :: "byte \<Rightarrow> bool" where
  "plain_char c = (c \<noteq> of_char CHR '' '' \<and> c \<noteq> mqttSingleLevelWC \<and> c \<noteq> mqttMultiLevelWC)"

definition subject_shape :: "bytes \<Rightarrow> bool" where
  "subject_shape S =
     (S \<noteq> [] \<and> hd S \<noteq> btsep \<and> last S \<noteq> btsep
      \<and> (\<forall>c\<in>set S. c \<noteq> of_char CHR '' '' \<and> c \<noteq> mqttSingleLevelWC \<and> c \<noteq> mqttMultiLevelWC))"

section \<open>Properties\<close>

subsection \<open>The packet length decoder\<close>

lemma readPacketLen_byte_input:
  assumes "pos r \<le> length (buf r)" and "input r = b # rest"
  shows "\<exists>r'. readPacketLen_byte r = Inr (b, r') \<and> input r' = rest \<and> pos r' \<le> length (buf r')"
proof (cases "pos r = length (buf r)")
  case True
  with assms show ?thesis
    by (auto simp: readPacketLen_byte_def input_def split: list.splits)
next
  case False
  with assms have lt: "pos r < length (buf r)" by simp
  then have "drop (pos r) (buf r) = buf r ! pos r # drop (Suc (pos r)) (buf r)"
    by (simp add: Cons_nth_drop_Suc)
  with assms lt show ?thesis
    by (auto simp: readPacketLen_byte_def input_def)
qed

lemma readPacketLen_loop_wf:
  assumes "pos r \<le> length (buf r)" and "input r = bs @ rest"
    and "bs \<noteq> []" and "\<forall>b \<in> set (butlast bs). b AND 0x80 \<noteq> 0" and "last bs AND 0x80 = 0"
    and "m * 128 ^ (length bs - 1) \<le> 0x200000" and "0 < m"
  shows "\<exists>r'. readPacketLen_loop m v r = Inr (v + m * varint_value bs, r') \<and> input r' = rest"
  using assms
proof (induction bs arbitrary: m v r)
  case Nil
  then show ?case by simp
next
  case (Cons b bs)
  from Cons.prems(1,2) obtain r1 where r1: "readPacketLen_byte r = Inr (b, r1)"
    "input r1 = bs @ rest" "pos r1 \<le> length (buf r1)"
    using readPacketLen_byte_input [of r b "bs @ rest"] by auto
  show ?case
  proof (cases "bs = []")
    case True
    with Cons.prems r1 show ?thesis
      by (subst readPacketLen_loop.simps) (simp add: Let_def)
  next
    case False
    with Cons.prems have cont: "b AND 0x80 \<noteq> 0" by simp
    from False obtain k where k: "length bs = Suc k" by (cases bs) auto
    from Cons.prems(6,7) k have m1: "m * 128 * 128 ^ k \<le> 0x200000" by (simp add: mult.assoc)
    have "1 \<le> (128::int) ^ k" by simp
    with Cons.prems(7) have "m * 128 \<le> m * 128 * 128 ^ k"
      by (simp add: mult_le_cancel_left1)
    with m1 have small: "\<not> m * 128 > 0x200000" by linarith
    from False Cons.prems have
      "\<exists>r'. readPacketLen_loop (m * 128) (v + uint (b AND 0x7f) * m) r1 =
             Inr ((v + uint (b AND 0x7f) * m) + (m * 128) * varint_value bs, r') \<and> input r' = rest"
      using r1 m1 k by (intro Cons.IH) (auto)
    then obtain r' where "readPacketLen_loop (m * 128) (v + uint (b AND 0x7f) * m) r1 =
             Inr ((v + uint (b AND 0x7f) * m) + (m * 128) * varint_value bs, r')" "input r' = rest"
      by blast
    with r1 cont small show ?thesis
      by (subst readPacketLen_loop.simps) (simp add: Let_def algebra_simps)
  qed
qed


lemma readPacketLen_loop_cont:
  assumes "readPacketLen_byte r = Inr (b, r')" and "b AND 0x80 \<noteq> 0"
  shows "readPacketLen_loop m v r =
     (if m * 0x80 > 0x200000 then Inl (ErrMsg ''malformed variable int'')
      else readPacketLen_loop (m * 0x80) (v + uint (b AND 0x7f) * m) r')"
  using assms by (subst readPacketLen_loop.simps) (simp add: Let_def)

lemma readPacketLen_four_cont:
  assumes "pos r \<le> length (buf r)" and "input r = [b1, b2, b3, b4] @ rest"
    and "b1 AND 0x80 \<noteq> 0" "b2 AND 0x80 \<noteq> 0" "b3 AND 0x80 \<noteq> 0" "b4 AND 0x80 \<noteq> 0"
  shows "readPacketLen r = Inl (ErrMsg ''malformed variable int'')"
proof -
  from assms obtain r1 where r1: "readPacketLen_byte r = Inr (b1, r1)"
    "input r1 = b2 # b3 # b4 # rest" "pos r1 \<le> length (buf r1)"
    using readPacketLen_byte_input [of r b1 "b2 # b3 # b4 # rest"] by auto
  then obtain r2 where r2: "readPacketLen_byte r1 = Inr (b2, r2)"
    "input r2 = b3 # b4 # rest" "pos r2 \<le> length (buf r2)"
    using readPacketLen_byte_input [of r1 b2 "b3 # b4 # rest"] by auto
  then obtain r3 where r3: "readPacketLen_byte r2 = Inr (b3, r3)"
    "input r3 = b4 # rest" "pos r3 \<le> length (buf r3)"
    using readPacketLen_byte_input [of r2 b3 "b4 # rest"] by auto
  then obtain r4 where r4: "readPacketLen_byte r3 = Inr (b4, r4)"
    using readPacketLen_byte_input [of r3 b4 rest] by auto
  show ?thesis
    unfolding readPacketLen_def
    by (simp add: readPacketLen_loop_cont [OF r1(1) assms(3)]
        readPacketLen_loop_cont [OF r2(1) assms(4)]
        readPacketLen_loop_cont [OF r3(1) assms(5)]
        readPacketLen_loop_cont [OF r4 assms(6)])
qed

lemma readPacketLen_loop_step:
  assumes "readPacketLen_loop m v r = Inr (v', r')"
  obtains b r1 where "readPacketLen_byte r = Inr (b, r1)"
    and "b AND 0x80 = 0 \<Longrightarrow> v' = v + uint (b AND 0x7f) * m \<and> r' = r1"
    and "b AND 0x80 \<noteq> 0 \<Longrightarrow> m * 0x80 \<le> 0x200000 \<and>
          readPacketLen_loop (m * 0x80) (v + uint (b AND 0x7f) * m) r1 = Inr (v', r')"
proof (cases "readPacketLen_byte r")
  case (Inl e)
  then have "readPacketLen_loop m v r = Inl e"
    by (subst readPacketLen_loop.simps) simp
  with assms show ?thesis by simp
next
  case (Inr p)
  obtain b r1 where p: "p = (b, r1)" by (cases p)
  have eq: "readPacketLen_loop m v r =
    (if b AND 0x80 = 0 then Inr (v + uint (b AND 0x7f) * m, r1)
      else if m * 0x80 > 0x200000 then Inl (ErrMsg ''malformed variable int'')
      else readPacketLen_loop (m * 0x80) (v + uint (b AND 0x7f) * m) r1)"
    using Inr p by (subst readPacketLen_loop.simps) (simp add: Let_def)
  show ?thesis
  proof (cases "b AND 0x80 = 0")
    case True
    with eq assms have "v' = v + uint (b AND 0x7f) * m \<and> r' = r1" by simp
    with True Inr p show ?thesis by (intro that [of b r1]) simp_all
  next
    case False
    show ?thesis
    proof (cases "m * 0x80 > 0x200000")
      case True
      with False eq assms show ?thesis by simp
    next
      case nb: False
      with False eq assms have
        "readPacketLen_loop (m * 0x80) (v + uint (b AND 0x7f) * m) r1 = Inr (v', r')"
        by simp
      with nb False Inr p show ?thesis by (intro that [of b r1]) simp_all
    qed
  qed
qed

lemma uint_and_7f: "0 \<le> uint ((b::byte) AND 0x7f) \<and> uint (b AND 0x7f) < 128"
proof -
  have "b AND 0x7f \<le> 0x7f" by (rule word_and_le1)
  then have "uint (b AND 0x7f) \<le> uint (0x7f :: byte)" by (simp add: word_le_def)
  then show ?thesis by simp
qed

lemma readPacketLen_byte_unread:
  "readPacketLen_byte r = Inr (b, r') \<Longrightarrow> unread r = Suc (unread r')"
  by (auto simp: readPacketLen_byte_def unread_def split: if_splits list.splits)

lemma readPacketLen_loop_bounds:
  assumes "readPacketLen_loop m v r = Inr (v', r')"
    and "0 < m" and "0x200000 < m * 128 ^ Suc k"
  shows "unread r \<le> unread r' + Suc k \<and> v \<le> v' \<and> v' \<le> v + m * (128 ^ Suc k - 1)"
  using assms
proof (induction k arbitrary: m v r)
  case 0
  obtain b r1 where b: "readPacketLen_byte r = Inr (b, r1)"
    "b AND 0x80 = 0 \<Longrightarrow> v' = v + uint (b AND 0x7f) * m \<and> r' = r1"
    "b AND 0x80 \<noteq> 0 \<Longrightarrow> m * 0x80 \<le> 0x200000 \<and>
          readPacketLen_loop (m * 0x80) (v + uint (b AND 0x7f) * m) r1 = Inr (v', r')"
    by (rule readPacketLen_loop_step [OF "0.prems"(1)]) blast
  from "0.prems"(2,3) have "\<not> m * 0x80 \<le> 0x200000" by simp
  with b have v': "v' = v + uint (b AND 0x7f) * m" and r': "r' = r1" by blast+
  have d: "0 \<le> uint (b AND 0x7f)" "uint (b AND 0x7f) \<le> 127"
    using uint_and_7f [of b] by simp_all
  from d "0.prems"(2) have "0 \<le> uint (b AND 0x7f) * m" "uint (b AND 0x7f) * m \<le> 127 * m"
    by (simp_all add: mult_right_mono)
  with v' r' readPacketLen_byte_unread [OF b(1)] show ?case by simp
next
  case (Suc k)
  obtain b r1 where b: "readPacketLen_byte r = Inr (b, r1)"
    "b AND 0x80 = 0 \<Longrightarrow> v' = v + uint (b AND 0x7f) * m \<and> r' = r1"
    "b AND 0x80 \<noteq> 0 \<Longrightarrow> m * 0x80 \<le> 0x200000 \<and>
          readPacketLen_loop (m * 0x80) (v + uint (b AND 0x7f) * m) r1 = Inr (v', r')"
    by (rule readPacketLen_loop_step [OF Suc.prems(1)]) blast
  have d: "0 \<le> uint (b AND 0x7f)" "uint (b AND 0x7f) \<le> 127"
    using uint_and_7f [of b] by simp_all
  from d Suc.prems(2) have dm: "0 \<le> uint (b AND 0x7f) * m" "uint (b AND 0x7f) * m \<le> 127 * m"
    by (simp_all add: mult_right_mono)
  define X where "X = m * 128 ^ Suc k"
  have "(1::int) \<le> 128 ^ Suc k" by (rule one_le_power) simp
  with Suc.prems(2) have X: "m \<le> X" unfolding X_def by (simp add: mult_le_cancel_left1)
  have goal_eq: "m * (128 ^ Suc (Suc k) - 1) = 128 * X - m"
    by (simp add: X_def algebra_simps)
  show ?case
  proof (cases "b AND 0x80 = 0")
    case True
    with b have "v' = v + uint (b AND 0x7f) * m" "r' = r1" by blast+
    with dm X readPacketLen_byte_unread [OF b(1)] show ?thesis
      unfolding goal_eq by simp
  next
    case False
    with b have rec: "readPacketLen_loop (m * 0x80) (v + uint (b AND 0x7f) * m) r1 = Inr (v', r')"
      by blast
    from Suc.prems(2) have m0: "0 < m * 0x80" by simp
    from Suc.prems(3) have big: "0x200000 < (m * 0x80) * 128 ^ Suc k" by (simp add: mult.assoc)
    have ih_eq: "m * 0x80 * (128 ^ Suc k - 1) = 128 * X - 128 * m"
      by (simp add: X_def algebra_simps)
    from Suc.IH [OF rec m0 big] have
      "unread r1 \<le> unread r' + Suc k" "v + uint (b AND 0x7f) * m \<le> v'"
      "v' \<le> v + uint (b AND 0x7f) * m + (128 * X - 128 * m)"
      unfolding ih_eq by simp_all
    with dm readPacketLen_byte_unread [OF b(1)] show ?thesis
      unfolding goal_eq by simp
  qed
qed


text \<open>
  C9. \<^verbatim>\<open>readPacketLen\<close> decodes every well-formed encoding of at most four bytes to
  the encoded value, consuming exactly the encoding; four bytes with the continuation bit
  set fail with "malformed variable int"; a successful call reads at most four bytes and
  yields a value below \<open>2 ^ 28\<close>.
\<close>

lemma length4: "length bs = 4 \<Longrightarrow> \<exists>b1 b2 b3 b4. bs = [b1, b2, b3, b4]"
proof -
  assume "length bs = 4"
  then have "length bs = Suc (Suc (Suc (Suc 0)))" by simp
  then show ?thesis by (auto simp: length_Suc_conv)
qed

lemma pow128_small: "n \<le> 3 \<Longrightarrow> (1::int) * 128 ^ n \<le> 0x200000"
proof -
  assume len: "n \<le> 3"
  have "(128::int) ^ n \<le> 128 ^ 3"
    by (rule power_increasing [OF len]) simp
  then show ?thesis by simp
qed

theorem readPacketLen_decodes:
  assumes "pos r \<le> length (buf r)" and "input r = bs @ rest"
  shows "(wellformed_varint bs \<longrightarrow>
            (case readPacketLen r of Inl e \<Rightarrow> False
             | Inr (v, r') \<Rightarrow> v = varint_value bs \<and> input r' = rest))
       \<and> (length bs = 4 \<and> (\<forall>b \<in> set bs. b AND 0x80 \<noteq> 0) \<longrightarrow>
            readPacketLen r = Inl (ErrMsg ''malformed variable int''))
       \<and> (\<forall>v r'. readPacketLen r = Inr (v, r') \<longrightarrow>
            unread r \<le> unread r' + 4 \<and> 0 \<le> v \<and> v < 2 ^ 28)"
proof -
  have dec: "case readPacketLen r of Inl e \<Rightarrow> False
             | Inr (v, r') \<Rightarrow> v = varint_value bs \<and> input r' = rest"
    if wf: "wellformed_varint bs"
  proof -
    from wf have "length bs \<le> 4" by (simp add: wellformed_varint_def)
  then have len: "length bs - 1 \<le> 3" by arith
  have small: "(1::int) * 128 ^ (length bs - 1) \<le> 0x200000"
    by (rule pow128_small [OF len])
  from wf have "bs \<noteq> []" "\<forall>b \<in> set (butlast bs). b AND 0x80 \<noteq> 0" "last bs AND 0x80 = 0"
    by (simp_all add: wellformed_varint_def)
  from readPacketLen_loop_wf [OF assms this small, of 0]
  obtain r' where "readPacketLen_loop 1 0 r = Inr (0 + 1 * varint_value bs, r')" "input r' = rest"
    by auto
    then show ?thesis by (simp add: readPacketLen_def)
  qed
  have mal: "readPacketLen r = Inl (ErrMsg ''malformed variable int'')"
    if four: "length bs = 4 \<and> (\<forall>b \<in> set bs. b AND 0x80 \<noteq> 0)"
  proof -
  from four obtain b1 b2 b3 b4 where bs: "bs = [b1, b2, b3, b4]"
    using length4 [of bs] by blast
  with four assms show ?thesis
    by (intro readPacketLen_four_cont [of r b1 b2 b3 b4 rest]) simp_all
  qed
  have bnd: "unread r \<le> unread r' + 4 \<and> 0 \<le> v \<and> v < 2 ^ 28"
    if ok: "readPacketLen r = Inr (v, r')" for v r'
  proof -
  have p: "(128::int) ^ Suc 3 = 268435456" by simp
  have q: "(2::int) ^ 28 = 268435456" by simp
  from ok have l: "readPacketLen_loop 1 0 r = Inr (v, r')" by (simp add: readPacketLen_def)
  have a: "(0::int) < 1" by simp
  have b: "0x200000 < (1::int) * 128 ^ Suc 3" unfolding p by simp
  have "unread r \<le> unread r' + Suc 3 \<and> 0 \<le> v \<and> v \<le> 0 + 1 * (128 ^ Suc 3 - 1)"
    by (rule readPacketLen_loop_bounds [OF l a b])
  then show ?thesis unfolding p q by simp
  qed
  from dec mal bnd show ?thesis by blast
qed


theorem readPacketLen_decodes_witness:
  "readPacketLen \<lparr>reader = \<lparr>pending = [], ends_eof = True\<rparr>, buf = [0x30, 0xC1, 0x02, 0x00], pos = 1\<rparr>
     = Inr (321, \<lparr>reader = \<lparr>pending = [], ends_eof = True\<rparr>, buf = [0x30, 0xC1, 0x02, 0x00], pos = 3\<rparr>)
   \<and> varint_value [0xC1, 0x02] = 321
   \<and> input \<lparr>reader = \<lparr>pending = [], ends_eof = True\<rparr>, buf = [0x30, 0xC1, 0x02, 0x00], pos = 3\<rparr> = [0x00]
   \<and> readPacketLen \<lparr>reader = \<lparr>pending = [0xff, 0xff, 0x7f], ends_eof = True\<rparr>,
                      buf = [0x30, 0xff, 0xff], pos = 1\<rparr>
     = Inl (ErrMsg ''malformed variable int'')"
proof -
  define R1 :: mqttReader where
    "R1 = \<lparr>reader = \<lparr>pending = [], ends_eof = True\<rparr>, buf = [0x30, 0xC1, 0x02, 0x00], pos = 1\<rparr>"
  define R1' :: mqttReader where
    "R1' = \<lparr>reader = \<lparr>pending = [], ends_eof = True\<rparr>, buf = [0x30, 0xC1, 0x02, 0x00], pos = 3\<rparr>"
  define R2 :: mqttReader where
    "R2 = \<lparr>reader = \<lparr>pending = [0xff, 0xff, 0x7f], ends_eof = True\<rparr>, buf = [0x30, 0xff, 0xff], pos = 1\<rparr>"
  have a1: "pos R1 \<le> length (buf R1)" by (simp add: R1_def)
  have b1: "input R1 = [0xC1, 0x02] @ [0x00]" by (simp add: R1_def input_def)
  have wf: "wellformed_varint [0xC1, 0x02]" by (simp add: wellformed_varint_def)
  have a2: "pos R2 \<le> length (buf R2)" by (simp add: R2_def)
  have b2: "input R2 = [0xff, 0xff, 0xff, 0xff] @ [0x7f]" by (simp add: R2_def input_def)
  have c2: "length [0xff, 0xff, 0xff, 0xff :: byte] = 4
      \<and> (\<forall>b \<in> set [0xff, 0xff, 0xff, 0xff :: byte]. b AND 0x80 \<noteq> 0)" by simp
  have e: "readPacketLen R1 = Inr (321, R1')"
    by (simp add: R1_def R1'_def readPacketLen_def readPacketLen_loop.simps readPacketLen_byte_def)
  from readPacketLen_decodes [OF a1 b1] wf e
  have "(321::int) = varint_value [0xC1, 0x02] \<and> input R1' = [0x00]
        \<and> unread R1 \<le> unread R1' + 4 \<and> (0::int) \<le> 321 \<and> (321::int) < 2 ^ 28"
    by auto
  moreover from readPacketLen_decodes [OF a2 b2] c2
  have "readPacketLen R2 = Inl (ErrMsg ''malformed variable int'')" by blast
  ultimately show ?thesis using e unfolding R1_def R1'_def R2_def by simp
qed

subsection \<open>Topic and subject conversion\<close>

text \<open>
  C3. The topic \<^verbatim>\<open>/foo/bar\<close> converts to the subject \<^verbatim>\<open>/.foo.bar\<close> and that subject
  converts back to \<^verbatim>\<open>/foo/bar\<close>; the one-character topic \<^verbatim>\<open>/\<close> is left as it is in
  both directions. This holds for topic names and for topic filters.
\<close>

theorem topic_subject_examples:
  "mqttTopicToNATSPubSubject (bytes_of ''/foo/bar'') = Inr (True, bytes_of ''/.foo.bar'')
   \<and> mqttFilterToNATSSubject (bytes_of ''/foo/bar'') = Inr (True, bytes_of ''/.foo.bar'')
   \<and> mqttFromNATSPubSubject (bytes_of ''/.foo.bar'') = bytes_of ''/foo/bar''
   \<and> mqttTopicToNATSPubSubject (bytes_of ''/'') = Inr (False, bytes_of ''/'')
   \<and> mqttFilterToNATSSubject (bytes_of ''/'') = Inr (False, bytes_of ''/'')
   \<and> mqttFromNATSPubSubject (bytes_of ''/'') = bytes_of ''/''"
  by code_simp

text \<open>
  C2. The round trip topic to subject to topic to subject does not give the first subject
  back for the topic \<^verbatim>\<open>/.\<close>: its subject is \<^verbatim>\<open>/./\<close>, in which the first two bytes
  and the last two bytes overlap; \<^verbatim>\<open>mqttFromNATSPubSubject\<close> applies both of its special
  cases to it and returns the topic \<^verbatim>\<open>/\<close>, whose subject is \<^verbatim>\<open>/\<close>. The same happens
  for the topic \<^verbatim>\<open>./\<close>.
\<close>

theorem round_trip_slash_dot:
  "mqttTopicToNATSPubSubject (bytes_of ''/.'') = Inr (True, bytes_of ''/./'')
   \<and> mqttTopicToNATSPubSubject (bytes_of ''./'') = Inr (True, bytes_of ''/./'')
   \<and> mqttFromNATSPubSubject (bytes_of ''/./'') = bytes_of ''/''
   \<and> mqttTopicToNATSPubSubject (bytes_of ''/'') = Inr (False, bytes_of ''/'')
   \<and> bytes_of ''/'' \<noteq> bytes_of ''/./''"
  by code_simp

subsection \<open>The round trip away from the overlapping subject\<close>

text \<open>
  Both conversions in closed form, and from them: for every topic that
  \<^verbatim>\<open>mqttToNATSSubjectConversion\<close> accepts and whose subject is not \<^verbatim>\<open>/./\<close>, converting the
  subject back and forth gives the same subject again.
\<close>

lemma mqttFromNATSPubSubject_loop_eq:
  "i \<le> e \<Longrightarrow> e \<le> length t \<Longrightarrow>
   mqttFromNATSPubSubject_loop t i e
     = take i t @ map subject_char (take (e - i) (drop i t)) @ drop e t"
proof (induction t i e rule: mqttFromNATSPubSubject_loop.induct)
  case (1 topic i en)
  show ?case
  proof (cases "i < en")
    case False
    with "1.prems" show ?thesis
      by (subst mqttFromNATSPubSubject_loop.simps) simp
  next
    case True
    let ?t = "topic[i := subject_char (topic ! i)]"
    have upd: "(if topic ! i = mqttTopicLevelSep then topic[i := btsep]
           else if topic ! i = btsep then topic[i := mqttTopicLevelSep]
           else if topic ! i = of_char CHR ''_'' then topic[i := of_char CHR '' '']
           else topic) = ?t"
      by (simp add: subject_char_def)
    from True "1.prems" have il: "i < length topic" by simp
    have step: "mqttFromNATSPubSubject_loop topic i en = mqttFromNATSPubSubject_loop ?t (i + 1) en"
      using True by (subst mqttFromNATSPubSubject_loop.simps) (simp only: upd if_True)
    have ih: "mqttFromNATSPubSubject_loop ?t (i + 1) en
        = take (i + 1) ?t @ map subject_char (take (en - (i + 1)) (drop (i + 1) ?t)) @ drop en ?t"
      using "1.IH" [OF True] True "1.prems" unfolding upd by simp
    have a: "take (i + 1) ?t = take i topic @ [subject_char (topic ! i)]"
      using il by (simp add: take_Suc_conv_app_nth)
    have b: "drop (i + 1) ?t = drop (i + 1) topic" by simp
    have c: "drop en ?t = drop en topic" using True by simp
    have d: "take (en - i) (drop i topic) = topic ! i # take (en - (i + 1)) (drop (i + 1) topic)"
      using True il by (metis Cons_nth_drop_Suc Suc_diff_Suc Suc_eq_plus1 take_Suc_Cons)
    show ?thesis unfolding step ih a b c d by simp
  qed
qed

lemma upd_one: "j < length res \<Longrightarrow> res[j := x] = take j res @ [x] @ drop (j + 1) res"
  by (simp add: upd_conv_take_nth_drop)

lemma upd_two:
  "j + 2 \<le> length res \<Longrightarrow> res[j := x, j + 1 := y] = take j res @ [x, y] @ drop (j + 2) res"
  by (simp add: upd_conv_take_nth_drop take_Suc_conv_app_nth list_update_append nth_append
        Suc_leI drop_Suc tl_drop)

lemma conversion_switch_copy:
  assumes "j + length (enc_char (length mt) i (mt ! i)) \<le> length res" "i = 0 \<longrightarrow> j = 0"
  shows "mqttToNATSSubjectConversion_switch wcOk mt res i j =
     (if \<not> wcOk \<and> (mt ! i = mqttSingleLevelWC \<or> mt ! i = mqttMultiLevelWC)
      then Inl (ErrMsg ''wildcards not allowed in publish's topic'')
      else Inr (take j res @ enc_char (length mt) i (mt ! i)
                  @ drop (j + length (enc_char (length mt) i (mt ! i))) res,
                j + length (enc_char (length mt) i (mt ! i)) - 1))"
proof -
  show ?thesis
  proof (cases "mt ! i = mqttTopicLevelSep")
    case True
    show ?thesis
    proof (cases "i = 0")
      case i0: True
      with assms True have j0: "j = 0" and "0 + 2 \<le> length res" by (simp_all add: enc_char_def)
      moreover from this have "res \<noteq> []" by auto
      ultimately show ?thesis using upd_two [of 0 res mqttTopicLevelSep btsep] True i0
        by (simp add: mqttToNATSSubjectConversion_switch_def set_at_def enc_char_def
            mqttTopicLevelSep_def btsep_def mqttSingleLevelWC_def mqttMultiLevelWC_def)
    next
      case False
      show ?thesis
      proof (cases "i = length mt - 1")
        case l: True
        with assms True False have "j + 2 \<le> length res" by (simp add: enc_char_def)
        from upd_two [OF this, of btsep mqttTopicLevelSep] this True False l show ?thesis
          by (simp add: mqttToNATSSubjectConversion_switch_def set_at_def enc_char_def
            mqttTopicLevelSep_def btsep_def mqttSingleLevelWC_def mqttMultiLevelWC_def)
      next
        case nl: False
        with assms True False have "j < length res" by (simp add: enc_char_def)
        from upd_one [OF this, of btsep] this True False nl show ?thesis
          by (simp add: mqttToNATSSubjectConversion_switch_def set_at_def enc_char_def topic_char_def
            mqttTopicLevelSep_def btsep_def mqttSingleLevelWC_def mqttMultiLevelWC_def)
      qed
    qed
  next
    case False
    with assms have jl: "j < length res" by (simp add: enc_char_def)
    from this False show ?thesis
      by (simp add: upd_one mqttToNATSSubjectConversion_switch_def set_at_def enc_char_def topic_char_def
            mqttTopicLevelSep_def btsep_def mqttSingleLevelWC_def mqttMultiLevelWC_def pwc_def fwc_def)
  qed
qed

lemma enc_char_length: "length (enc_char n k c) = 1 \<or> length (enc_char n k c) = 2"
  by (simp add: enc_char_def)

lemma conversion_loop_copy:
  "mt = pre @ rest \<Longrightarrow> i = length pre \<Longrightarrow>
   j + length (enc_from (length mt) i rest) \<le> length res \<Longrightarrow> (i = 0 \<longrightarrow> j = 0) \<Longrightarrow>
   mqttToNATSSubjectConversion_loop wcOk True mt res i j =
     (if wild_ok wcOk rest
      then Inr (take j res @ enc_from (length mt) i rest
                  @ drop (j + length (enc_from (length mt) i rest)) res)
      else Inl (ErrMsg ''wildcards not allowed in publish's topic''))"
proof (induction rest arbitrary: pre res i j)
  case Nil
  then show ?case
    by (subst mqttToNATSSubjectConversion_loop.simps) (simp add: wild_ok_def)
next
  case (Cons c cs)
  let ?n = "length mt"
  let ?e = "enc_char ?n i c"
  have il: "i < ?n" and ci: "mt ! i = c" using Cons.prems by simp_all
  have le: "j + length ?e \<le> length res" using Cons.prems by simp
  have pos: "0 < length ?e" using enc_char_length [of ?n i c] by auto
  note sw = conversion_switch_copy [of j mt i res wcOk, unfolded ci, OF le Cons.prems(4)]
  show ?case
  proof (cases "\<not> wcOk \<and> (c = mqttSingleLevelWC \<or> c = mqttMultiLevelWC)")
    case True
    then show ?thesis using il sw
      by (subst mqttToNATSSubjectConversion_loop.simps) (auto simp add: wild_ok_def)
  next
    case False
    let ?res = "take j res @ ?e @ drop (j + length ?e) res"
    let ?j = "j + length ?e"
    have step: "mqttToNATSSubjectConversion_loop wcOk True mt res i j
                 = mqttToNATSSubjectConversion_loop wcOk True mt ?res (i + 1) ?j"
      using il sw False pos
      by (subst mqttToNATSSubjectConversion_loop.simps) simp
    have lres: "length ?res = length res" using le by simp
    have ih: "mqttToNATSSubjectConversion_loop wcOk True mt ?res (i + 1) ?j =
       (if wild_ok wcOk cs
        then Inr (take ?j ?res @ enc_from ?n (i + 1) cs
                  @ drop (?j + length (enc_from ?n (i + 1) cs)) ?res)
        else Inl (ErrMsg ''wildcards not allowed in publish's topic''))"
      using Cons.prems lres
      by (intro Cons.IH [of "pre @ [c]"]) simp_all
    have t: "take ?j ?res = take j res @ ?e" using le by simp
    have d: "drop (?j + length (enc_from ?n (i + 1) cs)) ?res
               = drop (j + length (enc_from ?n i (c # cs))) res"
      using le by (simp add: ac_simps)
    have w: "wild_ok wcOk (c # cs) = wild_ok wcOk cs" using False by (auto simp: wild_ok_def)
    show ?thesis unfolding step ih t d w by simp
  qed
qed

lemma conversion_switch_in_place:
  assumes "i < length res" "res ! i = mqttTopicLevelSep \<longrightarrow> i \<noteq> 0 \<and> i \<noteq> length res - 1"
  shows "mqttToNATSSubjectConversion_switch wcOk res res i i =
     (if \<not> wcOk \<and> (res ! i = mqttSingleLevelWC \<or> res ! i = mqttMultiLevelWC)
      then Inl (ErrMsg ''wildcards not allowed in publish's topic'')
      else Inr (res[i := topic_char (res ! i)], i))"
proof (cases "res ! i = mqttTopicLevelSep")
  case True
  with assms have "i \<noteq> 0" "i \<noteq> length res - 1" by simp_all
  with True assms(1) show ?thesis
    by (simp add: mqttToNATSSubjectConversion_switch_def set_at_def topic_char_def
            mqttTopicLevelSep_def btsep_def mqttSingleLevelWC_def mqttMultiLevelWC_def)
next
  case False
  with assms(1) show ?thesis
    by (simp add: mqttToNATSSubjectConversion_switch_def set_at_def topic_char_def
            mqttTopicLevelSep_def btsep_def mqttSingleLevelWC_def mqttMultiLevelWC_def pwc_def fwc_def)
qed

lemma conversion_loop_in_place:
  "length res = length mt \<Longrightarrow> i \<le> length mt \<Longrightarrow>
   (\<forall>k. i \<le> k \<and> k < length mt \<longrightarrow> res ! k = mqttTopicLevelSep \<longrightarrow> k \<noteq> 0 \<and> k \<noteq> length mt - 1) \<Longrightarrow>
   mqttToNATSSubjectConversion_loop wcOk False mt res i i =
     (if wild_ok wcOk (drop i res)
      then Inr (take i res @ map topic_char (drop i res))
      else Inl (ErrMsg ''wildcards not allowed in publish's topic''))"
proof (induction "length mt - i" arbitrary: res i)
  case 0
  then show ?case
    by (subst mqttToNATSSubjectConversion_loop.simps) (simp add: wild_ok_def)
next
  case (Suc d)
  have il: "i < length res" using Suc.hyps(2) Suc.prems by simp
  have ok: "res ! i = mqttTopicLevelSep \<longrightarrow> i \<noteq> 0 \<and> i \<noteq> length res - 1"
    using Suc.prems il by simp
  note sw = conversion_switch_in_place [OF il ok, of wcOk]
  have dr: "drop i res = res ! i # drop (i + 1) res"
    using il by (simp add: Cons_nth_drop_Suc)
  show ?case
  proof (cases "\<not> wcOk \<and> (res ! i = mqttSingleLevelWC \<or> res ! i = mqttMultiLevelWC)")
    case True
    then show ?thesis using il sw Suc.prems(1) unfolding dr
      by (subst mqttToNATSSubjectConversion_loop.simps) (auto simp add: wild_ok_def)
  next
    case False
    let ?res = "res[i := topic_char (res ! i)]"
    have step: "mqttToNATSSubjectConversion_loop wcOk False mt res i i
                 = mqttToNATSSubjectConversion_loop wcOk False mt ?res (i + 1) (i + 1)"
      using il sw False Suc.prems(1)
      by (subst mqttToNATSSubjectConversion_loop.simps) simp
    have ih: "mqttToNATSSubjectConversion_loop wcOk False mt ?res (i + 1) (i + 1) =
       (if wild_ok wcOk (drop (i + 1) ?res)
        then Inr (take (i + 1) ?res @ map topic_char (drop (i + 1) ?res))
        else Inl (ErrMsg ''wildcards not allowed in publish's topic''))"
      using Suc.hyps(2) Suc.prems il
      by (intro Suc.hyps(1)) auto
    have t: "take (i + 1) ?res = take i res @ [topic_char (res ! i)]"
      using il by (simp add: take_Suc_conv_app_nth)
    have d: "drop (i + 1) ?res = drop (i + 1) res" by simp
    have w: "wild_ok wcOk (res ! i # drop (i + 1) res) = wild_ok wcOk (drop (i + 1) res)"
      using False by (auto simp: wild_ok_def)
    show ?thesis unfolding step ih t d dr w by simp
  qed
qed

lemma enc_from_append:
  "enc_from n k (xs @ ys) = enc_from n k xs @ enc_from n (k + length xs) ys"
  by (induction xs arbitrary: k) simp_all

lemma enc_mid: "0 < k \<Longrightarrow> k + length cs < n \<Longrightarrow> enc_from n k cs = map topic_char cs"
  by (induction cs arbitrary: k) (auto simp add: enc_char_def)

lemma enc_shape:
  "enc_from (length M + 2) 0 (a # M @ [z]) = enc_first a @ map topic_char M @ enc_last z"
  by (simp add: enc_from_append enc_mid)
     (simp add: enc_char_def enc_first_def enc_last_def)

lemma mqttToNATSSubjectConversion_shape:
  "mqttToNATSSubjectConversion (a # M @ [z]) wcOk
     = (if wild_ok wcOk (a # M @ [z])
        then Inr (a = mqttTopicLevelSep \<or> z = mqttTopicLevelSep,
                  enc_first a @ map topic_char M @ enc_last z)
        else Inl (ErrMsg ''wildcards not allowed in publish's topic''))"
proof -
  let ?T = "a # M @ [z]"
  let ?n = "length M + 2"
  have len: "length ?T = ?n" by simp
  have lastT: "?T ! (length ?T - 1) = z" by (simp add: nth_append)
  show ?thesis
  proof (cases "a = mqttTopicLevelSep \<or> z = mqttTopicLevelSep")
    case True
    let ?size = "?n + (if a = mqttTopicLevelSep then 1 else 0) + (if z = mqttTopicLevelSep then 1 else 0)"
    have el: "length (enc_from ?n 0 ?T) = ?size"
      unfolding enc_shape by (simp add: enc_first_def enc_last_def)
    have "mqttToNATSSubjectConversion_loop wcOk True ?T (replicate ?size 0) 0 0
            = (if wild_ok wcOk ?T then Inr (enc_from ?n 0 ?T)
               else Inl (ErrMsg ''wildcards not allowed in publish's topic''))"
      using conversion_loop_copy [of ?T "[]" ?T 0 0 "replicate ?size 0" wcOk] el
      by (simp del: enc_from.simps)
    then show ?thesis using True lastT
      unfolding enc_shape
      by (simp add: mqttToNATSSubjectConversion_def Let_def del: replicate.simps replicate_Suc)
  next
    case False
    have "k \<noteq> 0 \<and> k \<noteq> length ?T - 1" if "?T ! k = mqttTopicLevelSep" for k
    proof (rule conjI; rule notI)
      assume "k = 0" with that False show False by simp
    next
      assume "k = length ?T - 1" with that lastT False show False by metis
    qed
    then have "\<forall>k. 0 \<le> k \<and> k < length ?T \<longrightarrow> ?T ! k = mqttTopicLevelSep \<longrightarrow> k \<noteq> 0 \<and> k \<noteq> length ?T - 1"
      by blast
    from conversion_loop_in_place [OF refl _ this, of wcOk]
    have "mqttToNATSSubjectConversion_loop wcOk False ?T ?T 0 0
            = (if wild_ok wcOk ?T then Inr (map topic_char ?T)
               else Inl (ErrMsg ''wildcards not allowed in publish's topic''))"
      by simp
    then show ?thesis using False lastT
      by (simp add: mqttToNATSSubjectConversion_def Let_def enc_first_def enc_last_def)
  qed
qed

lemma mqttToNATSSubjectConversion_single:
  assumes "a \<noteq> mqttTopicLevelSep"
  shows "mqttToNATSSubjectConversion [a] wcOk
           = (if wild_ok wcOk [a] then Inr (False, [topic_char a])
              else Inl (ErrMsg ''wildcards not allowed in publish's topic''))"
proof -
  have "\<forall>k. 0 \<le> k \<and> k < length [a] \<longrightarrow> [a] ! k = mqttTopicLevelSep \<longrightarrow> k \<noteq> 0 \<and> k \<noteq> length [a] - 1"
    using assms by simp
  from conversion_loop_in_place [OF refl _ this, of wcOk]
  have "mqttToNATSSubjectConversion_loop wcOk False [a] [a] 0 0
          = (if wild_ok wcOk [a] then Inr (map topic_char [a])
             else Inl (ErrMsg ''wildcards not allowed in publish's topic''))"
    by simp
  then show ?thesis using assms
    by (simp add: mqttToNATSSubjectConversion_def Let_def)
qed

lemma slash_dot: "bytes_of ''/.'' = [mqttTopicLevelSep, btsep]"
  by (simp add: bytes_of_def mqttTopicLevelSep_def btsep_def)

lemma dot_slash: "bytes_of ''./'' = [btsep, mqttTopicLevelSep]"
  by (simp add: bytes_of_def mqttTopicLevelSep_def btsep_def)

lemma mqttFromNATSPubSubject_plain:
  assumes "S \<noteq> [mqttTopicLevelSep]"
    "\<not> (length S > 2 \<and> take 2 S = [mqttTopicLevelSep, btsep])"
    "\<not> (length S > 2 \<and> drop (length S - 2) S = [btsep, mqttTopicLevelSep])"
  shows "mqttFromNATSPubSubject S = map subject_char S"
proof -
  have ns: "\<not> (length S = 1 \<and> S ! 0 = mqttTopicLevelSep)"
    using assms(1) by (cases S) auto
  show ?thesis
    using ns assms(2,3)
    by (auto simp add: mqttFromNATSPubSubject_def slash_dot dot_slash
        mqttFromNATSPubSubject_loop_eq)
qed

lemma mqttFromNATSPubSubject_prefix:
  assumes "R \<noteq> []"
    "drop (length R) (mqttTopicLevelSep # btsep # R) \<noteq> [btsep, mqttTopicLevelSep]"
  shows "mqttFromNATSPubSubject (mqttTopicLevelSep # btsep # R) = mqttTopicLevelSep # map subject_char R"
  using assms
  by (simp add: mqttFromNATSPubSubject_def slash_dot dot_slash
        mqttFromNATSPubSubject_loop_eq)

lemma mqttFromNATSPubSubject_suffix:
  assumes "L \<noteq> []" "take 2 (L @ [btsep, mqttTopicLevelSep]) \<noteq> [mqttTopicLevelSep, btsep]"
  shows "mqttFromNATSPubSubject (L @ [btsep, mqttTopicLevelSep]) = map subject_char L @ [mqttTopicLevelSep]"
proof -
  have upd: "(take (Suc (length L)) (L @ [btsep, mqttTopicLevelSep]))[length L := mqttTopicLevelSep]
             = L @ [mqttTopicLevelSep]"
    by simp
  show ?thesis
    using assms
    by (simp add: mqttFromNATSPubSubject_def slash_dot dot_slash upd
        mqttFromNATSPubSubject_loop_eq)
qed

lemma mqttFromNATSPubSubject_both:
  "mqttFromNATSPubSubject (mqttTopicLevelSep # btsep # M @ [btsep, mqttTopicLevelSep])
     = mqttTopicLevelSep # map subject_char M @ [mqttTopicLevelSep]"
proof -
  have upd: "(mqttTopicLevelSep # take (Suc (length M)) (M @ [btsep, mqttTopicLevelSep]))
               [Suc (length M) := mqttTopicLevelSep]
             = mqttTopicLevelSep # M @ [mqttTopicLevelSep]"
    by simp
  show ?thesis
    by (simp add: mqttFromNATSPubSubject_def slash_dot dot_slash upd
        mqttFromNATSPubSubject_loop_eq)
qed

lemma topic_char_range:
  "topic_char c \<noteq> of_char CHR '' ''" "topic_char c \<noteq> 32" "topic_char c \<noteq> mqttSingleLevelWC"
  "topic_char c \<noteq> mqttMultiLevelWC"
  by (simp_all add: topic_char_def mqttTopicLevelSep_def btsep_def mqttSingleLevelWC_def
      mqttMultiLevelWC_def pwc_def fwc_def)

lemma topic_char_btsep: "topic_char c = btsep \<longleftrightarrow> c = mqttTopicLevelSep"
  by (simp add: topic_char_def mqttTopicLevelSep_def btsep_def mqttSingleLevelWC_def
      mqttMultiLevelWC_def pwc_def fwc_def)

lemma subject_char_sep: "subject_char c = mqttTopicLevelSep \<longleftrightarrow> c = btsep"
  by (simp add: subject_char_def mqttTopicLevelSep_def btsep_def)

lemma subject_char_wild:
  "c \<noteq> mqttSingleLevelWC \<Longrightarrow> subject_char c \<noteq> mqttSingleLevelWC"
  "c \<noteq> mqttMultiLevelWC \<Longrightarrow> subject_char c \<noteq> mqttMultiLevelWC"
  by (simp_all add: subject_char_def mqttTopicLevelSep_def btsep_def mqttSingleLevelWC_def
      mqttMultiLevelWC_def)

lemma topic_subject_char:
  "c \<noteq> of_char CHR '' '' \<Longrightarrow> c \<noteq> mqttSingleLevelWC \<Longrightarrow> c \<noteq> mqttMultiLevelWC \<Longrightarrow>
   topic_char (subject_char c) = c"
  by (simp add: topic_char_def subject_char_def mqttTopicLevelSep_def btsep_def
      mqttSingleLevelWC_def mqttMultiLevelWC_def)

lemma sep_consts:
  "mqttTopicLevelSep \<noteq> btsep" "mqttTopicLevelSep \<noteq> of_char CHR '' ''"
  "mqttTopicLevelSep \<noteq> 32" "btsep \<noteq> 32" "btsep \<noteq> mqttTopicLevelSep"
  "mqttTopicLevelSep \<noteq> mqttSingleLevelWC" "mqttTopicLevelSep \<noteq> mqttMultiLevelWC"
  "btsep \<noteq> of_char CHR '' ''" "btsep \<noteq> mqttSingleLevelWC" "btsep \<noteq> mqttMultiLevelWC"
  by (simp_all add: mqttTopicLevelSep_def btsep_def mqttSingleLevelWC_def mqttMultiLevelWC_def)

lemma mqttToNATSSubjectConversion_subject_shape:
  assumes "mqttToNATSSubjectConversion T wcOk = Inr (b, S)"
  shows "subject_shape S"
proof (cases T)
  case Nil
  with assms show ?thesis by (simp add: mqttToNATSSubjectConversion_def)
next
  case (Cons a cs)
  show ?thesis
  proof (cases cs rule: rev_cases)
    case Nil
    show ?thesis
    proof (cases "a = mqttTopicLevelSep")
      case True
      with assms Cons Nil have "S = [mqttTopicLevelSep]"
        by (simp add: mqttToNATSSubjectConversion_def)
      then show ?thesis by (simp add: subject_shape_def sep_consts)
    next
      case False
      from assms Cons Nil mqttToNATSSubjectConversion_single [OF False, of wcOk]
      have "S = [topic_char a]" by (simp split: if_splits)
      with False show ?thesis
        by (simp add: subject_shape_def topic_char_range topic_char_btsep)
    qed
  next
    case (snoc M z)
    from assms Cons snoc mqttToNATSSubjectConversion_shape [of a M z wcOk]
    have S: "S = enc_first a @ map topic_char M @ enc_last z" by (simp split: if_splits)
    show ?thesis unfolding S subject_shape_def
      by (auto simp add: enc_first_def enc_last_def topic_char_range topic_char_btsep sep_consts)
  qed
qed

lemma pre_form:
  assumes "length S > 2" "take 2 S = [x, y]"
  shows "\<exists>R. R \<noteq> [] \<and> S = x # y # R"
proof -
  have "S = take 2 S @ drop 2 S" by simp
  with assms(2) have "S = x # y # drop 2 S" by simp
  moreover have "drop 2 S \<noteq> []" using assms(1) by simp
  ultimately show ?thesis by blast
qed

lemma suf_form:
  assumes "length S > 2" "drop (length S - 2) S = [u, v]"
  shows "\<exists>L. L \<noteq> [] \<and> S = L @ [u, v]"
proof -
  have "S = take (length S - 2) S @ drop (length S - 2) S" by simp
  with assms(2) have "S = take (length S - 2) S @ [u, v]" by simp
  moreover have "take (length S - 2) S \<noteq> []" using assms(1) by auto
  ultimately show ?thesis by blast
qed

lemma both_form:
  assumes "length S > 2" "take 2 S = [x, y]" "drop (length S - 2) S = [u, v]" "S \<noteq> [x, y, v]"
  shows "\<exists>M. S = x # y # M @ [u, v]"
proof -
  from pre_form [OF assms(1,2)] obtain R where R: "R \<noteq> []" "S = x # y # R" by blast
  from assms(3) R(2) have dR: "drop (length R) (x # y # R) = [u, v]" by simp
  show ?thesis
  proof (cases "length R = 1")
    case True
    then obtain z where "R = [z]" by (cases R) auto
    with dR R(2) assms(4) show ?thesis by simp
  next
    case False
    with R(1) have l2: "2 \<le> length R" by (cases R) (auto simp: Suc_le_eq)
    have "drop (length R) (x # y # R) = drop (length R - 2) R"
      using l2 by (auto simp add: drop_Cons' numeral_2_eq_2)
    with dR have "R = take (length R - 2) R @ [u, v]"
      by (metis append_take_drop_id)
    with R(2) show ?thesis by auto
  qed
qed

lemma map_topic_subject: "\<forall>c\<in>set X. plain_char c \<Longrightarrow> map topic_char (map subject_char X) = X"
  by (induction X) (simp_all add: topic_subject_char plain_char_def)

lemma wild_ok_subject:
  "plain_char a \<Longrightarrow> \<forall>c\<in>set X. plain_char c \<Longrightarrow> plain_char z \<Longrightarrow>
   wild_ok wcOk (subject_char a # map subject_char X @ [subject_char z])"
  by (auto simp add: wild_ok_def plain_char_def subject_char_wild)

lemma enc_first_subject:
  "plain_char a \<Longrightarrow> a \<noteq> btsep \<Longrightarrow> enc_first (subject_char a) = [a]"
  by (simp add: enc_first_def subject_char_sep topic_subject_char plain_char_def)

lemma enc_last_subject:
  "plain_char z \<Longrightarrow> z \<noteq> btsep \<Longrightarrow> enc_last (subject_char z) = [z]"
  by (simp add: enc_last_def subject_char_sep topic_subject_char plain_char_def)

lemma subject_char_btsep: "subject_char btsep = mqttTopicLevelSep"
  by (simp add: subject_char_sep)

lemma plain_consts: "plain_char btsep" "plain_char mqttTopicLevelSep"
  by (simp_all add: plain_char_def sep_consts)

lemma enc_sep:
  "enc_first (subject_char btsep) = [mqttTopicLevelSep, btsep]"
  "enc_last (subject_char btsep) = [btsep, mqttTopicLevelSep]"
  by (simp_all add: enc_first_def enc_last_def subject_char_btsep)

lemma to_subject_chars:
  assumes "plain_char a" "\<forall>c\<in>set M. plain_char c" "plain_char z"
  shows "mqttToNATSSubjectConversion (subject_char a # map subject_char M @ [subject_char z]) wcOk
           = Inr (a = btsep \<or> z = btsep,
                  enc_first (subject_char a) @ M @ enc_last (subject_char z))"
  unfolding mqttToNATSSubjectConversion_shape
  using wild_ok_subject [OF assms, of wcOk] map_topic_subject [OF assms(2)]
  by (simp only: if_True subject_char_sep)

lemma round_trip_both:
  assumes "\<forall>c\<in>set M. plain_char c"
  shows "mqttToNATSSubjectConversion
           (mqttFromNATSPubSubject (mqttTopicLevelSep # btsep # M @ [btsep, mqttTopicLevelSep])) wcOk
         = Inr (True, mqttTopicLevelSep # btsep # M @ [btsep, mqttTopicLevelSep])"
proof -
  have D: "mqttFromNATSPubSubject (mqttTopicLevelSep # btsep # M @ [btsep, mqttTopicLevelSep])
             = subject_char btsep # map subject_char M @ [subject_char btsep]"
    by (simp add: mqttFromNATSPubSubject_both subject_char_btsep)
  show ?thesis
    unfolding D to_subject_chars [OF plain_consts(1) assms plain_consts(1)] enc_sep
    by simp
qed

lemma round_trip_prefix:
  assumes "\<forall>c\<in>set R. plain_char c" "plain_char z" "z \<noteq> btsep"
    "drop (length (R @ [z])) (mqttTopicLevelSep # btsep # R @ [z]) \<noteq> [btsep, mqttTopicLevelSep]"
  shows "mqttToNATSSubjectConversion
           (mqttFromNATSPubSubject (mqttTopicLevelSep # btsep # R @ [z])) wcOk
         = Inr (True, mqttTopicLevelSep # btsep # R @ [z])"
proof -
  have "R @ [z] \<noteq> []" by simp
  from mqttFromNATSPubSubject_prefix [OF this assms(4)]
  have D: "mqttFromNATSPubSubject (mqttTopicLevelSep # btsep # R @ [z])
             = subject_char btsep # map subject_char R @ [subject_char z]"
    by (simp add: subject_char_btsep)
  show ?thesis
    unfolding D to_subject_chars [OF plain_consts(1) assms(1,2)] enc_sep
      enc_last_subject [OF assms(2,3)]
    by simp
qed

lemma round_trip_suffix:
  assumes "\<forall>c\<in>set L. plain_char c" "plain_char a" "a \<noteq> btsep"
    "take 2 ((a # L) @ [btsep, mqttTopicLevelSep]) \<noteq> [mqttTopicLevelSep, btsep]"
  shows "mqttToNATSSubjectConversion
           (mqttFromNATSPubSubject ((a # L) @ [btsep, mqttTopicLevelSep])) wcOk
         = Inr (True, (a # L) @ [btsep, mqttTopicLevelSep])"
proof -
  have "a # L \<noteq> []" by simp
  from mqttFromNATSPubSubject_suffix [OF this assms(4)]
  have D: "mqttFromNATSPubSubject ((a # L) @ [btsep, mqttTopicLevelSep])
             = subject_char a # map subject_char L @ [subject_char btsep]"
    by (simp add: subject_char_btsep)
  show ?thesis
    unfolding D to_subject_chars [OF assms(2,1) plain_consts(1)] enc_sep
      enc_first_subject [OF assms(2,3)]
    by simp
qed

lemma round_trip_plain:
  assumes "\<forall>c\<in>set M. plain_char c" "plain_char a" "a \<noteq> btsep" "plain_char z" "z \<noteq> btsep"
    "\<not> (length (a # M @ [z]) > 2 \<and> take 2 (a # M @ [z]) = [mqttTopicLevelSep, btsep])"
    "\<not> (length (a # M @ [z]) > 2
        \<and> drop (length (a # M @ [z]) - 2) (a # M @ [z]) = [btsep, mqttTopicLevelSep])"
  shows "mqttToNATSSubjectConversion (mqttFromNATSPubSubject (a # M @ [z])) wcOk
         = Inr (False, a # M @ [z])"
proof -
  have "a # M @ [z] \<noteq> [mqttTopicLevelSep]" by simp
  from mqttFromNATSPubSubject_plain [OF this assms(6,7)]
  have D: "mqttFromNATSPubSubject (a # M @ [z])
             = subject_char a # map subject_char M @ [subject_char z]"
    by simp
  show ?thesis
    unfolding D to_subject_chars [OF assms(2,1,4)]
      enc_first_subject [OF assms(2,3)] enc_last_subject [OF assms(4,5)]
    using assms(3,5) by simp
qed

lemma round_trip_single:
  assumes "plain_char a" "a \<noteq> btsep"
  shows "\<exists>b'. mqttToNATSSubjectConversion (mqttFromNATSPubSubject [a]) wcOk = Inr (b', [a])"
proof (cases "a = mqttTopicLevelSep")
  case True
  then show ?thesis
    by (auto simp add: mqttFromNATSPubSubject_def mqttToNATSSubjectConversion_def)
next
  case False
  from mqttFromNATSPubSubject_plain [of "[a]"] False
  have D: "mqttFromNATSPubSubject [a] = [subject_char a]" by simp
  have w: "wild_ok wcOk [subject_char a]"
    using assms by (simp add: wild_ok_def plain_char_def subject_char_wild)
  have "subject_char a \<noteq> mqttTopicLevelSep" using assms by (simp add: subject_char_sep)
  from mqttToNATSSubjectConversion_single [OF this, of wcOk] w assms
  show ?thesis unfolding D
    by (auto simp add: topic_subject_char plain_char_def)
qed

lemma round_trip_shape:
  assumes sh: "subject_shape S" and ne: "S \<noteq> [mqttTopicLevelSep, btsep, mqttTopicLevelSep]"
  shows "\<exists>b'. mqttToNATSSubjectConversion (mqttFromNATSPubSubject S) wcOk = Inr (b', S)"
proof -
  from sh have nonempty: "S \<noteq> []" and hd: "hd S \<noteq> btsep" and last: "last S \<noteq> btsep"
    and plain: "\<forall>c\<in>set S. plain_char c"
    by (simp_all add: subject_shape_def plain_char_def)
  let ?pre = "length S > 2 \<and> take 2 S = [mqttTopicLevelSep, btsep]"
  let ?suf = "length S > 2 \<and> drop (length S - 2) S = [btsep, mqttTopicLevelSep]"
  consider (both) "?pre" "?suf"
    | (pre) "?pre" "\<not> ?suf"
    | (suf) "\<not> ?pre" "?suf"
    | (neither) "\<not> ?pre" "\<not> ?suf"
    by blast
  then show ?thesis
  proof cases
    case both
    with both_form [of S mqttTopicLevelSep btsep btsep mqttTopicLevelSep] ne
    obtain M where S: "S = mqttTopicLevelSep # btsep # M @ [btsep, mqttTopicLevelSep]"
      by blast
    have pM: "\<forall>c\<in>set M. plain_char c" using plain by (simp add: S)
    show ?thesis unfolding S using round_trip_both [OF pM] by blast
  next
    case pre
    with pre_form [of S mqttTopicLevelSep btsep]
    obtain R where S: "S = mqttTopicLevelSep # btsep # R" and R: "R \<noteq> []"
      by blast
    from R obtain R' z where Rz: "R = R' @ [z]" by (cases R rule: rev_cases) auto
    have z: "plain_char z" "z \<noteq> btsep" and pR: "\<forall>c\<in>set R'. plain_char c"
      using last plain by (simp_all add: S Rz)
    from pre have ns: "drop (length (R' @ [z])) (mqttTopicLevelSep # btsep # R' @ [z])
                         \<noteq> [btsep, mqttTopicLevelSep]"
      by (simp add: S Rz)
    show ?thesis unfolding S Rz using round_trip_prefix [OF pR z ns] by blast
  next
    case suf
    with suf_form [of S btsep mqttTopicLevelSep]
    obtain L where S: "S = L @ [btsep, mqttTopicLevelSep]" and L: "L \<noteq> []"
      by blast
    from L obtain a L' where La: "L = a # L'" by (cases L) auto
    have a: "plain_char a" "a \<noteq> btsep" and pL: "\<forall>c\<in>set L'. plain_char c"
      using hd plain by (simp_all add: S La)
    from suf have np: "take 2 ((a # L') @ [btsep, mqttTopicLevelSep]) \<noteq> [mqttTopicLevelSep, btsep]"
      by (auto simp add: S La)
    show ?thesis unfolding S La using round_trip_suffix [OF pL a np] by blast
  next
    case neither
    from nonempty obtain a cs where Sa: "S = a # cs" by (cases S) auto
    show ?thesis
    proof (cases cs rule: rev_cases)
      case Nil
      have a: "plain_char a" "a \<noteq> btsep" using hd plain by (simp_all add: Sa)
      show ?thesis unfolding Sa Nil by (rule round_trip_single [OF a])
    next
      case (snoc M z)
      have a: "plain_char a" "a \<noteq> btsep" and z: "plain_char z" "z \<noteq> btsep"
        and pM: "\<forall>c\<in>set M. plain_char c"
        using hd last plain by (simp_all add: Sa snoc)
      from neither have n1: "\<not> (length (a # M @ [z]) > 2 \<and> take 2 (a # M @ [z]) = [mqttTopicLevelSep, btsep])"
        and n2: "\<not> (length (a # M @ [z]) > 2
        \<and> drop (length (a # M @ [z]) - 2) (a # M @ [z]) = [btsep, mqttTopicLevelSep])"
        unfolding Sa snoc by blast+
      show ?thesis unfolding Sa snoc using round_trip_plain [OF pM a z n1 n2] by blast
    qed
  qed
qed

lemma round_trip_except_overlap:
  assumes "mqttToNATSSubjectConversion T wcOk = Inr (b, S)" "S \<noteq> bytes_of ''/./''"
  shows "\<exists>b'. mqttToNATSSubjectConversion (mqttFromNATSPubSubject S) wcOk' = Inr (b', S)"
proof -
  have "bytes_of ''/./'' = [mqttTopicLevelSep, btsep, mqttTopicLevelSep]"
    by (simp add: bytes_of_def mqttTopicLevelSep_def btsep_def)
  with assms(2) have "S \<noteq> [mqttTopicLevelSep, btsep, mqttTopicLevelSep]" by simp
  with mqttToNATSSubjectConversion_subject_shape [OF assms(1)] show ?thesis
    by (rule round_trip_shape)
qed

lemma round_trip_except_overlap_example:
  "mqttToNATSSubjectConversion (bytes_of ''/foo bar/+/baz/'') True
     = Inr (True, bytes_of ''/.foo_bar.*.baz./'')
   \<and> (\<exists>b'. mqttToNATSSubjectConversion
              (mqttFromNATSPubSubject (bytes_of ''/.foo_bar.*.baz./'')) False
            = Inr (b', bytes_of ''/.foo_bar.*.baz./''))"
proof -
  have e: "mqttToNATSSubjectConversion (bytes_of ''/foo bar/+/baz/'') True
             = Inr (True, bytes_of ''/.foo_bar.*.baz./'')"
    by code_simp
  have ne: "bytes_of ''/.foo_bar.*.baz./'' \<noteq> bytes_of ''/./''"
    by (simp add: bytes_of_def)
  from round_trip_except_overlap [OF e ne] e show ?thesis by blast
qed

subsection \<open>Packet identifiers of delivered messages\<close>

text \<open>
  C1. The packet identifier counter of a connection is a \<^verbatim>\<open>uint16\<close> incremented with
  \<^verbatim>\<open>ppi++\<close>: after 65535 the next identifier is 0, not 1. With the counter at 65535,
  delivering a QoS 1 message to a QoS 1 subscription sets the counter to 0, records the
  pending ack under identifier 0, and writes a PUBLISH with the QoS 1 flag and a
  remaining length of 6 that has no packet identifier in it (4 bytes follow).
\<close>

theorem mqttSerializePublishMsg_after_65535:
  "map_option (map_sum id (\<lambda>(fl, w, m). (fl, w, ppi m, lookup (acks m) 0)))
     (mqttSerializePublishMsg
        \<lparr>cp = None, pp = None, ppi = 65535, cons = None, acks = None\<rparr>
        [] (bytes_of ''a'') (bytes_of ''r'') (bytes_of ''m'') mqttPubQos1
        \<lparr>subject = bytes_of ''a'', sid = bytes_of ''a'',
         sub_mqtt = Some \<lparr>sub_qos = 1, prm = None, jsConsKey = bytes_of ''a''\<rparr>\<rparr>)
   = Some (Inr (mqttPubQos1,
                [0x32, 6, 0, 1] @ bytes_of ''a'' @ bytes_of ''m'',
                0,
                Some \<lparr>ackSubj = bytes_of ''r'', ack_jsConsKey = bytes_of ''a''\<rparr>))"
  by code_simp

lemma WriteVarInt_total: "0 \<le> v \<Longrightarrow> \<exists>w'. WriteVarInt v w = Some w'"
proof (induction "nat v" arbitrary: v w rule: less_induct)
  case less
  show ?case
  proof (cases "drop_bit 7 v = 0")
    case True
    then show ?thesis by (subst WriteVarInt.simps) simp
  next
    case False
    have d: "drop_bit 7 v = v div 128" by (simp add: drop_bit_eq_div)
    with False less.prems have pos: "0 < v div 128" "v div 128 < v"
      by (simp_all add: pos_imp_zdiv_pos_iff) 
    with d have "nat (drop_bit 7 v) < nat v" "0 \<le> drop_bit 7 v" by simp_all
    from less.hyps [OF this] False show ?thesis
      by (subst WriteVarInt.simps) simp
  qed
qed

lemma mqttGetQoS_zero: "mqttGetQoS 0 = 0"
  by (simp add: mqttGetQoS_def)

lemma mqttSerializePublishMsg_allocates:
  assumes "sub_mqtt sub = Some sm" and "0 < sub_qos sm" and "0 < mqttGetQoS ppFlags"
  shows "\<exists>fl w' m'. mqttSerializePublishMsg m w subj reply payload ppFlags sub = Some (Inr (fl, w', m'))
           \<and> ppi m' = ppi m + 1
           \<and> (reply \<noteq> [] \<longrightarrow>
                lookup (acks m') (ppi m + 1) = Some \<lparr>ackSubj = reply, ack_jsConsKey = jsConsKey sm\<rparr>)"
proof -
  from assms(3) have nz: "ppFlags \<noteq> 0" using mqttGetQoS_zero by auto
  have "0 \<le> 2 + int (length (mqttFromNATSPubSubject subj)) + int (length payload) + 2" by simp
  from WriteVarInt_total [OF this] obtain w1 where
    "WriteVarInt (2 + int (length (mqttFromNATSPubSubject subj)) + int (length payload) + 2)
       (WriteByte (mqttPacketPub OR
          ((if (ppFlags AND mqttPubFlagRetain) \<noteq> 0 then 0 OR mqttPubFlagRetain else 0) OR mqttPubQos1)) w)
     = Some w1" by blast
  with assms nz show ?thesis
    by (simp add: mqttSerializePublishMsg_def Let_def lookup_def)
qed

subsection \<open>PUBACK from the client\<close>

text \<open>
  C10. When the packet identifier has an entry in the pending acks of the connection,
  \<^verbatim>\<open>mqttProcessPubAck\<close> removes that entry and leaves the others; if no entry is left
  it sets the counter to 0, and the next QoS 1 delivery then returns and takes packet
  identifier 1; if entries are left the counter is unchanged. When the identifier has no
  entry, the connection state is unchanged and no ack is passed to a consumer.
\<close>

theorem mqttProcessPubAck_known_and_unknown:
  "(lookup (acks m) pid = Some ack \<longrightarrow>
      lookup (acks (fst (mqttProcessPubAck m pid))) pid = None
      \<and> (\<forall>k. k \<noteq> pid \<longrightarrow>
            lookup (acks (fst (mqttProcessPubAck m pid))) k = lookup (acks m) k)
      \<and> ((\<forall>k. lookup (acks (fst (mqttProcessPubAck m pid))) k = None) \<longrightarrow>
            ppi (fst (mqttProcessPubAck m pid)) = 0
            \<and> (\<forall>w subj reply payload ppFlags sub sm.
                  sub_mqtt sub = Some sm \<and> 0 < sub_qos sm \<and> 0 < mqttGetQoS ppFlags \<longrightarrow>
                  (\<exists>fl w' m''.
                     mqttSerializePublishMsg (fst (mqttProcessPubAck m pid))
                       w subj reply payload ppFlags sub
                       = Some (Inr (fl, w', m'')) \<and> ppi m'' = 1)))
      \<and> ((\<exists>k. lookup (acks (fst (mqttProcessPubAck m pid))) k \<noteq> None) \<longrightarrow>
            ppi (fst (mqttProcessPubAck m pid)) = ppi m))
   \<and> (lookup (acks m) pid = None \<longrightarrow> mqttProcessPubAck m pid = (m, None))"
proof (rule conjI; rule impI)
  assume "lookup (acks m) pid = None"
  then show "mqttProcessPubAck m pid = (m, None)"
    by (simp add: mqttProcessPubAck_def)
next
  assume known: "lookup (acks m) pid = Some ack"
  then obtain a where a: "acks m = Some a" "a pid = Some ack"
    by (auto simp: lookup_def split: option.splits)
  define m' where "m' = fst (mqttProcessPubAck m pid)"
  from known a have acks': "acks m' = Some (a(pid := None))"
    by (auto simp: m'_def mqttProcessPubAck_def Let_def split: if_splits)
  from known a have ppi': "ppi m' = (if dom (a(pid := None)) = {} then 0 else ppi m)"
    by (auto simp: m'_def mqttProcessPubAck_def Let_def split: if_splits)
  have empty_iff: "(\<forall>k. lookup (acks m') k = None) \<longleftrightarrow> dom (a(pid := None)) = {}"
    using acks' by (auto simp: lookup_def)
  have alloc: "\<exists>fl w' m''. mqttSerializePublishMsg m' w subj reply payload ppFlags sub
                  = Some (Inr (fl, w', m'')) \<and> ppi m'' = 1"
    if "ppi m' = 0" "sub_mqtt sub = Some sm \<and> 0 < sub_qos sm \<and> 0 < mqttGetQoS ppFlags"
    for w subj reply payload ppFlags sub sm
    using mqttSerializePublishMsg_allocates [of sub sm ppFlags m' w subj reply payload] that
    by auto
  have c1: "lookup (acks m') pid = None"
    using acks' by (simp add: lookup_def)
  have c2: "\<forall>k. k \<noteq> pid \<longrightarrow> lookup (acks m') k = lookup (acks m) k"
    using acks' a by (simp add: lookup_def)
  have c3: "(\<forall>k. lookup (acks m') k = None) \<longrightarrow>
                ppi m' = 0
                \<and> (\<forall>w subj reply payload ppFlags sub sm.
                      sub_mqtt sub = Some sm \<and> 0 < sub_qos sm \<and> 0 < mqttGetQoS ppFlags \<longrightarrow>
                      (\<exists>fl w' m''.
                         mqttSerializePublishMsg m' w subj reply payload ppFlags sub
                           = Some (Inr (fl, w', m'')) \<and> ppi m'' = 1))"
  proof
    assume "\<forall>k. lookup (acks m') k = None"
    with empty_iff ppi' have z: "ppi m' = 0" by simp
    with alloc show "ppi m' = 0
                \<and> (\<forall>w subj reply payload ppFlags sub sm.
                      sub_mqtt sub = Some sm \<and> 0 < sub_qos sm \<and> 0 < mqttGetQoS ppFlags \<longrightarrow>
                      (\<exists>fl w' m''.
                         mqttSerializePublishMsg m' w subj reply payload ppFlags sub
                           = Some (Inr (fl, w', m'')) \<and> ppi m'' = 1))"
      by blast
  qed
  have c4: "(\<exists>k. lookup (acks m') k \<noteq> None) \<longrightarrow> ppi m' = ppi m"
  proof
    assume "\<exists>k. lookup (acks m') k \<noteq> None"
    then have "\<not> (\<forall>k. lookup (acks m') k = None)" by simp
    with empty_iff have "dom (a(pid := None)) \<noteq> {}" by simp
    with ppi' show "ppi m' = ppi m" by simp
  qed
  from c1 c2 c3 c4 show "lookup (acks (fst (mqttProcessPubAck m pid))) pid = None
      \<and> (\<forall>k. k \<noteq> pid \<longrightarrow>
            lookup (acks (fst (mqttProcessPubAck m pid))) k = lookup (acks m) k)
      \<and> ((\<forall>k. lookup (acks (fst (mqttProcessPubAck m pid))) k = None) \<longrightarrow>
            ppi (fst (mqttProcessPubAck m pid)) = 0
            \<and> (\<forall>w subj reply payload ppFlags sub sm.
                  sub_mqtt sub = Some sm \<and> 0 < sub_qos sm \<and> 0 < mqttGetQoS ppFlags \<longrightarrow>
                  (\<exists>fl w' m''.
                     mqttSerializePublishMsg (fst (mqttProcessPubAck m pid))
                       w subj reply payload ppFlags sub
                       = Some (Inr (fl, w', m'')) \<and> ppi m'' = 1)))
      \<and> ((\<exists>k. lookup (acks (fst (mqttProcessPubAck m pid))) k \<noteq> None) \<longrightarrow>
            ppi (fst (mqttProcessPubAck m pid)) = ppi m)"
    unfolding m'_def by (intro conjI)
qed

theorem mqttProcessPubAck_known_and_unknown_witness:
  "ppi (fst (mqttProcessPubAck
         \<lparr>cp = None, pp = None, ppi = 7, cons = None,
          acks = Some [7 \<mapsto> \<lparr>ackSubj = bytes_of ''r'', ack_jsConsKey = bytes_of ''a''\<rparr>]\<rparr> 7)) = 0
   \<and> (\<exists>fl w' m''.
         mqttSerializePublishMsg
           (fst (mqttProcessPubAck
                  \<lparr>cp = None, pp = None, ppi = 7, cons = None,
                   acks = Some [7 \<mapsto> \<lparr>ackSubj = bytes_of ''r'', ack_jsConsKey = bytes_of ''a''\<rparr>]\<rparr> 7))
           [] (bytes_of ''a'') (bytes_of ''r'') (bytes_of ''m'') mqttPubQos1
           \<lparr>subject = bytes_of ''a'', sid = bytes_of ''a'',
            sub_mqtt = Some \<lparr>sub_qos = 1, prm = None, jsConsKey = bytes_of ''a''\<rparr>\<rparr>
         = Some (Inr (fl, w', m'')) \<and> ppi m'' = 1)
   \<and> ppi (fst (mqttProcessPubAck
         \<lparr>cp = None, pp = None, ppi = 9, cons = None,
          acks = Some [8 \<mapsto> \<lparr>ackSubj = bytes_of ''r'', ack_jsConsKey = bytes_of ''a''\<rparr>,
                       9 \<mapsto> \<lparr>ackSubj = bytes_of ''s'', ack_jsConsKey = bytes_of ''a''\<rparr>]\<rparr> 8)) = 9
   \<and> mqttProcessPubAck
         \<lparr>cp = None, pp = None, ppi = 9, cons = None,
          acks = Some [8 \<mapsto> \<lparr>ackSubj = bytes_of ''r'', ack_jsConsKey = bytes_of ''a''\<rparr>,
                       9 \<mapsto> \<lparr>ackSubj = bytes_of ''s'', ack_jsConsKey = bytes_of ''a''\<rparr>]\<rparr> 5
       = (\<lparr>cp = None, pp = None, ppi = 9, cons = None,
          acks = Some [8 \<mapsto> \<lparr>ackSubj = bytes_of ''r'', ack_jsConsKey = bytes_of ''a''\<rparr>,
                       9 \<mapsto> \<lparr>ackSubj = bytes_of ''s'', ack_jsConsKey = bytes_of ''a''\<rparr>]\<rparr>, None)"
proof -
  define A where "A = \<lparr>ackSubj = bytes_of ''r'', ack_jsConsKey = bytes_of ''a''\<rparr>"
  define B where "B = \<lparr>ackSubj = bytes_of ''s'', ack_jsConsKey = bytes_of ''a''\<rparr>"
  define M1 where "M1 = \<lparr>cp = None, pp = None, ppi = 7, cons = None, acks = Some [7 \<mapsto> A]\<rparr>"
  define M2 where "M2 = \<lparr>cp = None, pp = None, ppi = 9, cons = None, acks = Some [8 \<mapsto> A, 9 \<mapsto> B]\<rparr>"
  define S where "S = \<lparr>subject = bytes_of ''a'', sid = bytes_of ''a'',
            sub_mqtt = Some \<lparr>sub_qos = 1, prm = None, jsConsKey = bytes_of ''a''\<rparr>\<rparr>"
  have k1: "lookup (acks M1) 7 = Some A" by (simp add: M1_def lookup_def)
  have k2: "lookup (acks M2) 8 = Some A" by (simp add: M2_def lookup_def)
  have u2: "lookup (acks M2) 5 = None" by (simp add: M2_def lookup_def)
  have e1: "\<forall>k. lookup (acks (fst (mqttProcessPubAck M1 7))) k = None"
    by (simp add: M1_def mqttProcessPubAck_def lookup_def Let_def)
  have e2: "\<exists>k. lookup (acks (fst (mqttProcessPubAck M2 8))) k \<noteq> None"
    by (rule exI [of _ 9]) (simp add: M2_def mqttProcessPubAck_def lookup_def Let_def)
  have s: "sub_mqtt S = Some \<lparr>sub_qos = 1, prm = None, jsConsKey = bytes_of ''a''\<rparr>
           \<and> 0 < sub_qos \<lparr>sub_qos = 1, prm = None, jsConsKey = bytes_of ''a''\<rparr>
           \<and> 0 < mqttGetQoS mqttPubQos1"
    by (simp add: S_def mqttGetQoS_def mqttPubQos1_def mqttPubFlagQoS_def)
  from mqttProcessPubAck_known_and_unknown [of M1 7 A] k1 e1 s
  have r1: "ppi (fst (mqttProcessPubAck M1 7)) = 0
     \<and> (\<exists>fl w' m''. mqttSerializePublishMsg (fst (mqttProcessPubAck M1 7))
           [] (bytes_of ''a'') (bytes_of ''r'') (bytes_of ''m'') mqttPubQos1 S
         = Some (Inr (fl, w', m'')) \<and> ppi m'' = 1)"
    by blast
  from mqttProcessPubAck_known_and_unknown [of M2 8 A] k2 e2
  have r2: "ppi (fst (mqttProcessPubAck M2 8)) = ppi M2"
    by blast
  from mqttProcessPubAck_known_and_unknown [of M2 5] u2
  have r3: "mqttProcessPubAck M2 5 = (M2, None)" by blast
  from r1 r2 r3 show ?thesis
    unfolding M1_def M2_def S_def A_def B_def by simp
qed

subsection \<open>Retained messages\<close>

lemma and_not_retain: "((f::byte) AND NOT mqttPubFlagRetain) AND mqttPubFlagRetain = 0"
  by (simp add: mqttPubFlagRetain_def word_bw_assocs)

lemma retain_store:
  assumes "flags p AND mqttPubFlagRetain = 1" and "sz p \<noteq> 0"
    and "(msgs r = None) = (sl r = None)"
  shows "\<exists>r1. mqttHandlePubRetain a u r p = Inr (r1, p\<lparr>flags := flags p AND NOT mqttPubFlagRetain\<rparr>)
     \<and> lookup (msgs r1) (pp_subject p)
         = Some (p\<lparr>source := u,
                   pp_sub := Some (a, \<lparr>subject = pp_subject p, sid = [], sub_mqtt = None\<rparr>)\<rparr>)
     \<and> (\<forall>k. k \<noteq> pp_subject p \<longrightarrow> lookup (msgs r1) k = lookup (msgs r) k)
     \<and> (\<exists>s. sl r1 = Some s \<and> (a, \<lparr>subject = pp_subject p, sid = [], sub_mqtt = None\<rparr>) \<in> set s)
     \<and> msgs r1 \<noteq> None"
  using assms
  by (cases "msgs r"; cases "sl r")
     (auto simp: mqttHandlePubRetain_def Let_def clone_def copyBytes_def lookup_def
        NewSublistWithCache_def Insert_def)

lemma retain_remove:
  assumes "flags p AND mqttPubFlagRetain = 1" and "sz p = 0"
    and "lookup (msgs r) (pp_subject p) = Some epp" and "pp_sub epp = Some sub" and "sl r = Some s"
  shows "\<exists>r2. mqttHandlePubRetain a u r p = Inr (r2, p\<lparr>flags := flags p AND NOT mqttPubFlagRetain\<rparr>)
     \<and> lookup (msgs r2) (pp_subject p) = None
     \<and> (\<forall>k. k \<noteq> pp_subject p \<longrightarrow> lookup (msgs r2) k = lookup (msgs r) k)
     \<and> sl r2 = Some (Remove sub s)"
  using assms
  by (cases "msgs r")
     (auto simp: mqttHandlePubRetain_def Let_def lookup_def)


text \<open>
  The \<^verbatim>\<open>msgs\<close> map alone. A PUBLISH with the retain flag and a payload (\<open>sz\<close>, the size
  of the payload, is not 0) leaves in the map one entry for its topic, the copy of the
  message with its source, whatever was there before, and puts the subscription of that
  entry into the index; entries of other topics are as before. A PUBLISH on the same
  topic that follows, with the retain flag and no payload, removes the entry from the map
  and the subscription of that entry from the index. Both times the message that goes on
  to the current subscribers has the retain flag cleared and is otherwise unchanged.
\<close>

lemma retained_store_then_remove:
  assumes "flags p AND mqttPubFlagRetain = 1" and "sz p \<noteq> 0"
    and "flags q AND mqttPubFlagRetain = 1" and "sz q = 0" and "pp_subject q = pp_subject p"
    and "(msgs r = None) = (sl r = None)"
  shows "\<exists>r1 r2 s1 s2.
      mqttHandlePubRetain a u r p = Inr (r1, p\<lparr>flags := flags p AND NOT mqttPubFlagRetain\<rparr>)
    \<and> lookup (msgs r1) (pp_subject p)
        = Some (p\<lparr>source := u,
                  pp_sub := Some (a, \<lparr>subject = pp_subject p, sid = [], sub_mqtt = None\<rparr>)\<rparr>)
    \<and> (\<forall>k. k \<noteq> pp_subject p \<longrightarrow> lookup (msgs r1) k = lookup (msgs r) k)
    \<and> sl r1 = Some s1
    \<and> (a, \<lparr>subject = pp_subject p, sid = [], sub_mqtt = None\<rparr>) \<in> set s1
    \<and> (flags p AND NOT mqttPubFlagRetain) AND mqttPubFlagRetain = 0
    \<and> mqttHandlePubRetain a' u' r1 q = Inr (r2, q\<lparr>flags := flags q AND NOT mqttPubFlagRetain\<rparr>)
    \<and> lookup (msgs r2) (pp_subject p) = None
    \<and> (\<forall>k. k \<noteq> pp_subject p \<longrightarrow> lookup (msgs r2) k = lookup (msgs r) k)
    \<and> sl r2 = Some s2
    \<and> a \<notin> fst ` set s2
    \<and> (flags q AND NOT mqttPubFlagRetain) AND mqttPubFlagRetain = 0"
proof -
  let ?n = "(a, \<lparr>subject = pp_subject p, sid = [], sub_mqtt = None\<rparr>)"
  let ?e = "p\<lparr>source := u, pp_sub := Some ?n\<rparr>"
  from retain_store [OF assms(1,2,6), of a u] obtain r1 s1 where
    r1: "mqttHandlePubRetain a u r p = Inr (r1, p\<lparr>flags := flags p AND NOT mqttPubFlagRetain\<rparr>)"
      "lookup (msgs r1) (pp_subject p) = Some ?e"
      "\<forall>k. k \<noteq> pp_subject p \<longrightarrow> lookup (msgs r1) k = lookup (msgs r) k"
      "sl r1 = Some s1" "?n \<in> set s1"
    by blast
  have e: "pp_sub ?e = Some ?n" by simp
  from r1(2) assms(5) have l: "lookup (msgs r1) (pp_subject q) = Some ?e" by simp
  from retain_remove [OF assms(3,4) l e r1(4), of a' u'] assms(5) obtain r2 where
    r2: "mqttHandlePubRetain a' u' r1 q = Inr (r2, q\<lparr>flags := flags q AND NOT mqttPubFlagRetain\<rparr>)"
      "lookup (msgs r2) (pp_subject p) = None"
      "\<forall>k. k \<noteq> pp_subject p \<longrightarrow> lookup (msgs r2) k = lookup (msgs r1) k"
      "sl r2 = Some (Remove ?n s1)"
    by auto
  have gone: "a \<notin> fst ` set (Remove ?n s1)" by (auto simp: Remove_def)
  from r1(3) r2(3) have others: "\<forall>k. k \<noteq> pp_subject p \<longrightarrow> lookup (msgs r2) k = lookup (msgs r) k"
    by simp
  note cp = and_not_retain [of "flags p"] and cq = and_not_retain [of "flags q"]
  show ?thesis
    apply (rule exI [of _ r1], rule exI [of _ r2], rule exI [of _ s1],
        rule exI [of _ "Remove ?n s1"])
    using r1(1) r1(2) r1(3) r1(4) r1(5) cp r2(1) r2(2) others r2(4) gone cq
    by (intro conjI)
qed

lemma retained_store_then_remove_example:
  fixes P Q :: mqttPublish and R :: mqttRetained
  defines "P \<equiv> \<lparr>pp_subject = bytes_of ''foo'', msg = bytes_of ''x'' @ CR_LF, sz = 1, pi = 0, flags = 1,
         subjc = False, source = [], pp_sub = None\<rparr>"
    and "Q \<equiv> \<lparr>pp_subject = bytes_of ''foo'', msg = CR_LF, sz = 0, pi = 0, flags = 1,
         subjc = False, source = [], pp_sub = None\<rparr>"
    and "R \<equiv> \<lparr>sl = None, msgs = None\<rparr>"
  shows "\<exists>r1 r2 s1 s2.
      mqttHandlePubRetain (1::nat) (bytes_of ''u'') R P = Inr (r1, P\<lparr>flags := flags P AND NOT mqttPubFlagRetain\<rparr>)
    \<and> lookup (msgs r1) (pp_subject P)
        = Some (P\<lparr>source := (bytes_of ''u''),
                  pp_sub := Some ((1::nat), \<lparr>subject = pp_subject P, sid = [], sub_mqtt = None\<rparr>)\<rparr>)
    \<and> (\<forall>k. k \<noteq> pp_subject P \<longrightarrow> lookup (msgs r1) k = lookup (msgs R) k)
    \<and> sl r1 = Some s1
    \<and> ((1::nat), \<lparr>subject = pp_subject P, sid = [], sub_mqtt = None\<rparr>) \<in> set s1
    \<and> (flags P AND NOT mqttPubFlagRetain) AND mqttPubFlagRetain = 0
    \<and> mqttHandlePubRetain (2::nat) (bytes_of ''v'') r1 Q = Inr (r2, Q\<lparr>flags := flags Q AND NOT mqttPubFlagRetain\<rparr>)
    \<and> lookup (msgs r2) (pp_subject P) = None
    \<and> (\<forall>k. k \<noteq> pp_subject P \<longrightarrow> lookup (msgs r2) k = lookup (msgs R) k)
    \<and> sl r2 = Some s2
    \<and> (1::nat) \<notin> fst ` set s2
    \<and> (flags Q AND NOT mqttPubFlagRetain) AND mqttPubFlagRetain = 0"
proof -
  have h1: "flags P AND mqttPubFlagRetain = 1" by (simp add: P_def mqttPubFlagRetain_def)
  have h2: "sz P \<noteq> 0" by (simp add: P_def)
  have h3: "flags Q AND mqttPubFlagRetain = 1" by (simp add: Q_def mqttPubFlagRetain_def)
  have h4: "sz Q = 0" by (simp add: Q_def)
  have h5: "pp_subject Q = pp_subject P" by (simp add: P_def Q_def)
  have h6: "(msgs R = None) = (sl R = None)" by (simp add: R_def)
  show ?thesis by (rule retained_store_then_remove [OF h1 h2 h3 h4 h5 h6])
qed

text \<open>
  The index. The store path puts a new subscription into the index and does not take out
  the one of the entry it overwrites, as the removal path does (\<^verbatim>\<open>r.sl.Remove(epp.sub)\<close>):
  after two retained messages on a topic the index holds both subscriptions, and the
  removal that follows takes out the second only.
\<close>

lemma retained_overwrite_keeps_node:
  assumes "flags p AND mqttPubFlagRetain = 1" and "sz p \<noteq> 0"
    and "flags p' AND mqttPubFlagRetain = 1" and "sz p' \<noteq> 0" and "pp_subject p' = pp_subject p"
    and "flags q AND mqttPubFlagRetain = 1" and "sz q = 0" and "pp_subject q = pp_subject p"
    and "(msgs r = None) = (sl r = None)" and "a1 \<noteq> a2"
  shows "\<exists>r1 r2 r3 s2 s3 x y z.
      mqttHandlePubRetain a1 u r p = Inr (r1, x)
    \<and> mqttHandlePubRetain a2 u r1 p' = Inr (r2, y)
    \<and> sl r2 = Some s2
    \<and> (a1, \<lparr>subject = pp_subject p, sid = [], sub_mqtt = None\<rparr>) \<in> set s2
    \<and> (a2, \<lparr>subject = pp_subject p, sid = [], sub_mqtt = None\<rparr>) \<in> set s2
    \<and> mqttHandlePubRetain a3 u r2 q = Inr (r3, z)
    \<and> lookup (msgs r3) (pp_subject p) = None
    \<and> sl r3 = Some s3
    \<and> (a1, \<lparr>subject = pp_subject p, sid = [], sub_mqtt = None\<rparr>) \<in> set s3"
proof -
  let ?n1 = "(a1, \<lparr>subject = pp_subject p, sid = [], sub_mqtt = None\<rparr>)"
  let ?n2 = "(a2, \<lparr>subject = pp_subject p, sid = [], sub_mqtt = None\<rparr>)"
  from retain_store [OF assms(1,2,9), of a1 u] obtain r1 s1 where
    r1: "mqttHandlePubRetain a1 u r p = Inr (r1, p\<lparr>flags := flags p AND NOT mqttPubFlagRetain\<rparr>)"
      "sl r1 = Some s1" "?n1 \<in> set s1" "msgs r1 \<noteq> None"
    by blast
  then have c1: "(msgs r1 = None) = (sl r1 = None)" by simp
  from r1(2,4) assms(3,4,5) obtain ms1 where ms1: "msgs r1 = Some ms1" by auto
  have "\<exists>r2 e. mqttHandlePubRetain a2 u r1 p'
                 = Inr (r2, p'\<lparr>flags := flags p' AND NOT mqttPubFlagRetain\<rparr>)
           \<and> msgs r2 = Some (ms1(pp_subject p \<mapsto> e)) \<and> pp_sub e = Some ?n2
           \<and> sl r2 = Some (Insert ?n2 s1)"
    using assms(3,4,5) ms1 r1(2)
    by (auto simp: mqttHandlePubRetain_def Let_def clone_def copyBytes_def intro!: exI)
  then obtain r2 e where
    st2: "mqttHandlePubRetain a2 u r1 p'
            = Inr (r2, p'\<lparr>flags := flags p' AND NOT mqttPubFlagRetain\<rparr>)"
    and m2: "msgs r2 = Some (ms1(pp_subject p \<mapsto> e))" and e: "pp_sub e = Some ?n2"
    and s2: "sl r2 = Some (Insert ?n2 s1)"
    by blast
  have "\<exists>r3. mqttHandlePubRetain a3 u r2 q
                 = Inr (r3, q\<lparr>flags := flags q AND NOT mqttPubFlagRetain\<rparr>)
           \<and> lookup (msgs r3) (pp_subject p) = None
           \<and> sl r3 = Some (Remove ?n2 (Insert ?n2 s1))"
    using assms(6,7,8) m2 e s2
    by (simp add: mqttHandlePubRetain_def Let_def lookup_def)
  then obtain r3 where
    st3: "mqttHandlePubRetain a3 u r2 q
            = Inr (r3, q\<lparr>flags := flags q AND NOT mqttPubFlagRetain\<rparr>)"
    and m3: "lookup (msgs r3) (pp_subject p) = None"
    and s3: "sl r3 = Some (Remove ?n2 (Insert ?n2 s1))"
    by blast
  have in2: "?n1 \<in> set (Insert ?n2 s1)" "?n2 \<in> set (Insert ?n2 s1)"
    using r1(3) by (simp_all add: Insert_def)
  have in3: "?n1 \<in> set (Remove ?n2 (Insert ?n2 s1))"
    using r1(3) assms(10) by (simp add: Insert_def Remove_def)
  show ?thesis
    using r1(1) st2 s2 in2 st3 m3 s3 in3 by blast
qed

text \<open>
  C4. The retained store does not keep to one entry for a topic: of its two parts, the
  \<^verbatim>\<open>msgs\<close> map and the index \<^verbatim>\<open>sl\<close>, only the map does. Starting from the empty store,
  a retained message \<^verbatim>\<open>x\<close> on the topic \<^verbatim>\<open>foo\<close> leaves one map entry and one index node;
  a second retained message \<^verbatim>\<open>y\<close> on \<^verbatim>\<open>foo\<close> replaces the map entry and leaves two index
  nodes for \<^verbatim>\<open>foo\<close>, the one of the replaced entry and the new one; the retained message
  with no payload that follows removes the map entry and the second node, and the node of
  the replaced entry stays in the index of a store that has no message for \<^verbatim>\<open>foo\<close>. The
  message that goes on to the subscribers has the retain flag cleared all three times.
\<close>

theorem retained_overwrite_stale_node:
  fixes P1 P2 Q :: mqttPublish and N :: subscription and r1 r2 :: mqttRetained
  defines "P1 \<equiv> \<lparr>pp_subject = bytes_of ''foo'', msg = bytes_of ''x'' @ CR_LF, sz = 1, pi = 0,
                  flags = 1, subjc = False, source = [], pp_sub = None\<rparr>"
    and "P2 \<equiv> \<lparr>pp_subject = bytes_of ''foo'', msg = bytes_of ''y'' @ CR_LF, sz = 1, pi = 0,
                 flags = 1, subjc = False, source = [], pp_sub = None\<rparr>"
    and "Q \<equiv> \<lparr>pp_subject = bytes_of ''foo'', msg = CR_LF, sz = 0, pi = 0,
                flags = 1, subjc = False, source = [], pp_sub = None\<rparr>"
    and "N \<equiv> \<lparr>subject = bytes_of ''foo'', sid = [], sub_mqtt = None\<rparr>"
    and "r1 \<equiv> fst (projr (mqttHandlePubRetain 1 (bytes_of ''u'') \<lparr>sl = None, msgs = None\<rparr> P1))"
    and "r2 \<equiv> fst (projr (mqttHandlePubRetain 2 (bytes_of ''u'') r1 P2))"
  shows "map_sum id (\<lambda>(r, p). (sl r, lookup (msgs r) (bytes_of ''foo''), flags p))
           (mqttHandlePubRetain 1 (bytes_of ''u'') \<lparr>sl = None, msgs = None\<rparr> P1)
         = Inr (Some [(1, N)],
                Some (P1\<lparr>source := bytes_of ''u'', pp_sub := Some (1, N)\<rparr>), 0)
       \<and> map_sum id (\<lambda>(r, p). (sl r, lookup (msgs r) (bytes_of ''foo''), flags p))
           (mqttHandlePubRetain 2 (bytes_of ''u'') r1 P2)
         = Inr (Some [(1, N), (2, N)],
                Some (P2\<lparr>source := bytes_of ''u'', pp_sub := Some (2, N)\<rparr>), 0)
       \<and> map_sum id (\<lambda>(r, p). (sl r, lookup (msgs r) (bytes_of ''foo''), flags p))
           (mqttHandlePubRetain 3 (bytes_of ''u'') r2 Q)
         = Inr (Some [(1, N)], None, 0)"
  unfolding P1_def P2_def Q_def N_def r1_def r2_def by code_simp

subsection \<open>SUBSCRIBE and SUBACK\<close>

lemma mqttProcessSubs_subscribe_err:
  "(snd (snd (snd (fst (mqttProcessSubs_subscribe env subj sd q w)))) \<noteq> None)
     = subscribe_fails env subj sd q w"
  by (auto simp: mqttProcessSubs_subscribe_def subscribe_fails_def Let_def
      split: prod.splits option.splits)

lemma mqttProcessSubs_body_cases:
  fixes f :: mqttFilter
  defines "q \<equiv> min (qos f) 1" and "subj \<equiv> filt f"
  defines "fw \<equiv> take (length subj - 2) subj"
  assumes s1: "mqttProcessSubs_subscribe env subj subj q w = ((sub, jscons, jssub, err), w1)"
    and s2: "mqttProcessSubs_subscribe env fw (fw @ mqttMultiLevelSidSuffix) q w1
               = ((fwcsub, fwjscons, fwjssub, err2), w2)"
  shows "mqttProcessSubs_body env f subs w =
     (if err \<noteq> None then
        (f\<lparr>qos := mqttSubAckFailure\<rparr>, subs, mqttCleanupFailedSub env sub jscons jssub w1)
      else if mqttNeedSubForLevelUp subj then
        (if err2 \<noteq> None then
           (f\<lparr>qos := mqttSubAckFailure\<rparr>, subs,
            mqttCleanupFailedSub env fwcsub fwjscons fwjssub
              (mqttCleanupFailedSub env sub jscons jssub w2))
         else
           (f\<lparr>qos := q\<rparr>, (subs @ [fwcsub]) @ [sub],
            mqttAddJSConsumer env jscons subj (mqttAddJSConsumer env fwjscons (fw @ mqttMultiLevelSidSuffix) w2)))
      else (f\<lparr>qos := q\<rparr>, subs @ [sub], mqttAddJSConsumer env jscons subj w1))"
proof -
  have m: "q = (if qos f > 1 then 1 else qos f)"
    by (simp add: q_def min_def not_le [symmetric])
  show ?thesis
  proof (cases "qos f > 1")
    case True
    with m have q1: "q = 1" by simp
    from s1 s2 True show ?thesis
      unfolding q1 subj_def fw_def
      by (simp add: mqttProcessSubs_body_def Let_def copyBytes_def)
  next
    case False
    with m have q1: "q = qos f" by simp
    from s1 s2 False show ?thesis
      unfolding q1 subj_def fw_def
      by (simp add: mqttProcessSubs_body_def Let_def copyBytes_def)
  qed
qed

lemma mqttProcessSubs_body_state:
  "snd (snd (mqttProcessSubs_body env f subs w)) = snd (snd (mqttProcessSubs_body env f [] w))"
proof -
  let ?q = "min (qos f) 1" and ?subj = "filt f"
  let ?fw = "take (length ?subj - 2) ?subj"
  obtain sub jscons jssub err w1 where
    s1: "mqttProcessSubs_subscribe env ?subj ?subj ?q w = ((sub, jscons, jssub, err), w1)"
    by (metis surj_pair)
  obtain fwcsub fwjscons fwjssub err2 w2 where
    s2: "mqttProcessSubs_subscribe env ?fw (?fw @ mqttMultiLevelSidSuffix) ?q w1
               = ((fwcsub, fwjscons, fwjssub, err2), w2)"
    by (metis surj_pair)
  show ?thesis
    unfolding mqttProcessSubs_body_cases [OF s1 s2] by simp
qed

lemma mqttProcessSubs_body_qos:
  "filt (fst (mqttProcessSubs_body env f subs w)) = filt f
   \<and> qos (fst (mqttProcessSubs_body env f subs w))
       = (if filter_fails env f w then mqttSubAckFailure else min (qos f) 1)"
proof -
  let ?q = "min (qos f) 1" and ?subj = "filt f"
  let ?fw = "take (length ?subj - 2) ?subj"
  obtain sub jscons jssub err w1 where
    s1: "mqttProcessSubs_subscribe env ?subj ?subj ?q w = ((sub, jscons, jssub, err), w1)"
    by (metis surj_pair)
  obtain fwcsub fwjscons fwjssub err2 w2 where
    s2: "mqttProcessSubs_subscribe env ?fw (?fw @ mqttMultiLevelSidSuffix) ?q w1
               = ((fwcsub, fwjscons, fwjssub, err2), w2)"
    by (metis surj_pair)
  from mqttProcessSubs_subscribe_err [of env ?subj ?subj ?q w] s1
  have e1: "subscribe_fails env ?subj ?subj ?q w = (err \<noteq> None)" by simp
  from mqttProcessSubs_subscribe_err [of env ?fw "?fw @ mqttMultiLevelSidSuffix" ?q w1] s2
  have e2: "subscribe_fails env ?fw (?fw @ mqttMultiLevelSidSuffix) ?q w1 = (err2 \<noteq> None)" by simp
  have ff: "filter_fails env f w
              = (err \<noteq> None \<or> (mqttNeedSubForLevelUp ?subj \<and> err2 \<noteq> None))"
    unfolding filter_fails_def Let_def e1 using e2 s1 by auto
  show ?thesis
    unfolding mqttProcessSubs_body_cases [OF s1 s2] ff by simp
qed

lemma mqttProcessSubs_loop_qos:
  "map filt (fst (mqttProcessSubs_loop env fs subs w)) = map filt fs
   \<and> map qos (fst (mqttProcessSubs_loop env fs subs w)) = suback_codes env fs w"
proof (induction fs arbitrary: subs w)
  case Nil
  then show ?case by simp
next
  case (Cons f fs)
  obtain f1 subs1 w1 where b: "mqttProcessSubs_body env f subs w = (f1, subs1, w1)"
    by (cases "mqttProcessSubs_body env f subs w") auto
  from mqttProcessSubs_body_state [of env f subs w] b
  have w1: "snd (snd (mqttProcessSubs_body env f [] w)) = w1" by simp
  from mqttProcessSubs_body_qos [of env f subs w] b
  have f1: "filt f1 = filt f"
    "qos f1 = (if filter_fails env f w then mqttSubAckFailure else min (qos f) 1)" by simp_all
  from Cons.IH [of subs1 w1] b w1 f1 show ?case
    by (simp add: split_beta)
qed

lemma foldl_WriteByte: "foldl (\<lambda>w f. w @ [g f]) w0 fs = w0 @ map g fs"
  by (induction fs arbitrary: w0) simp_all

lemma WriteVarInt_appends: "0 \<le> v \<Longrightarrow> \<exists>enc. \<forall>w. WriteVarInt v w = Some (w @ enc)"
proof (induction "nat v" arbitrary: v rule: less_induct)
  case less
  let ?b = "(if drop_bit 7 v > 0 then of_int (v AND 0x7f) OR 0x80 else of_int (v AND 0x7f)) :: byte"
  show ?case
  proof (cases "drop_bit 7 v = 0")
    case True
    then have "\<forall>w. WriteVarInt v w = Some (w @ [?b])"
      by (subst WriteVarInt.simps) (simp add: WriteByte_def)
    then show ?thesis by blast
  next
    case False
    have d: "drop_bit 7 v = v div 128" by (simp add: drop_bit_eq_div)
    with False less.prems have pos: "0 < v div 128" "v div 128 < v"
      by (simp_all add: pos_imp_zdiv_pos_iff)
    with d have "nat (drop_bit 7 v) < nat v" "0 \<le> drop_bit 7 v" by simp_all
    from less.hyps [OF this] obtain enc where
      enc: "\<forall>w. WriteVarInt (drop_bit 7 v) w = Some (w @ enc)" by blast
    have "\<forall>w. WriteVarInt v w = Some (w @ (?b # enc))"
    proof
      fix w
      from False enc show "WriteVarInt v w = Some (w @ (?b # enc))"
        by (subst WriteVarInt.simps) (simp add: WriteByte_def)
    qed
    then show ?thesis by blast
  qed
qed

text \<open>
  C5. \<^verbatim>\<open>mqttProcessSubs\<close> leaves every filter with its subject and neither drops nor
  reorders filters. The QoS it leaves in a filter is the failure byte \<^verbatim>\<open>0x80\<close> exactly
  when processing the filter fails, that is when \<^verbatim>\<open>processSub\<close> or
  \<^verbatim>\<open>mqttProcessJSConsumerForSubject\<close> returns an error for the subscription of the filter
  or for its level-up subscription (\<open>filter_fails\<close>, in the state in which the filter is
  reached), and else the smaller of the requested QoS and 1. The SUBACK that
  \<^verbatim>\<open>mqttEnqueueSubAck\<close> builds from these filters is the packet type, the remaining
  length \<open>2 + n\<close>, the packet identifier, and then exactly these bytes, one for each
  filter in the order of the filters.
\<close>

theorem mqttProcessSubs_suback:
  "case mqttProcessSubs env filters upd w of
     (filters', subs, err, w') \<Rightarrow>
       map filt filters' = map filt filters
     \<and> map qos filters' = suback_codes env filters w
     \<and> (\<exists>enc. WriteVarInt (2 + int (length filters)) [] = Some enc
           \<and> mqttEnqueueSubAck pid filters'
               = Some ([mqttPacketSubAck] @ enc @ [ucast (drop_bit 8 pid), ucast pid]
                       @ suback_codes env filters w))"
proof -
  obtain fs' subs w1 where l: "mqttProcessSubs_loop env filters [] w = (fs', subs, w1)"
    by (cases "mqttProcessSubs_loop env filters [] w") auto
  obtain err w2 where u:
    "(if upd then updateSession env fs' True w1 else (None, w1)) = (err, w2)"
    by (cases "if upd then updateSession env fs' True w1 else (None, w1)") auto
  from l u have r: "mqttProcessSubs env filters upd w = (fs', subs, err, w2)"
    by (simp add: mqttProcessSubs_def)
  from mqttProcessSubs_loop_qos [of env filters "[]" w] l
  have q: "map filt fs' = map filt filters" "map qos fs' = suback_codes env filters w"
    by simp_all
  from q(1) have len: "length fs' = length filters"
    by (metis length_map)
  have "0 \<le> 2 + int (length filters)" by simp
  from WriteVarInt_appends [OF this] obtain enc where
    enc: "\<forall>w. WriteVarInt (2 + int (length filters)) w = Some (w @ enc)" by blast
  then have e0: "WriteVarInt (2 + int (length filters)) [] = Some enc" by simp
  from enc len have "mqttEnqueueSubAck pid fs'
      = Some ([mqttPacketSubAck] @ enc @ [ucast (drop_bit 8 pid), ucast pid] @ map qos fs')"
    by (simp add: mqttEnqueueSubAck_def foldl_WriteByte WriteByte_def WriteUint16_def)
  with q e0 show ?thesis unfolding r by simp
qed

theorem mqttProcessSubs_suback_witness:
  fixes env :: "nat subsEnv" and fs :: "mqttFilter list"
  defines "env \<equiv> \<lparr>mqttSerializeRetainedMsgsForSub = (\<lambda>sub w. (sub, w)),
        processSub = (\<lambda>sub w. if subject sub = bytes_of ''bad'' \<or> subject sub = bytes_of ''b''
                                then ((None, Some (ErrMsg ''invalid subject'')), w)
                                else ((Some sub, None), Suc w)),
        mqttProcessJSConsumerForSubject =
          (\<lambda>subj sd q w. if subj = bytes_of ''c'' \<and> q > 0
                          then ((None, None, Some (ErrMsg ''no consumer'')), w)
                          else ((None, None, None), w)),
        mqttCleanupFailedSub = (\<lambda>sub jscons jssub w. w),
        mqttAddJSConsumer = (\<lambda>cons sd w. w),
        updateSession = (\<lambda>fs add w. (None, w))\<rparr>"
    and "fs \<equiv> [\<lparr>filt = bytes_of ''a'', copied = False, qos = 2\<rparr>,
         \<lparr>filt = bytes_of ''bad'', copied = False, qos = 1\<rparr>,
         \<lparr>filt = bytes_of ''b.>'', copied = False, qos = 0\<rparr>,
         \<lparr>filt = bytes_of ''c'', copied = True, qos = 1\<rparr>,
         \<lparr>filt = bytes_of ''d.>'', copied = False, qos = 0\<rparr>]"
  shows "case mqttProcessSubs env fs True 0 of
     (filters', subs, err, w') \<Rightarrow>
       map filt filters' = map filt fs
     \<and> map qos filters' = [1, 0x80, 0x80, 0x80, 0]
     \<and> mqttEnqueueSubAck 7 filters' = Some [0x90, 7, 0, 7, 1, 0x80, 0x80, 0x80, 0]"
proof -
  have c: "suback_codes env fs 0 = [1, 0x80, 0x80, 0x80, 0]"
    unfolding env_def fs_def by code_simp
  have v: "WriteVarInt (2 + int (length fs)) [] = Some [7]"
    unfolding fs_def by code_simp
  from mqttProcessSubs_suback [where env=env and filters=fs and upd=True and w=0 and pid=7] c v show ?thesis
    by (auto simp: mqttPacketSubAck_def split: prod.splits)
qed

subsection \<open>PUBLISH and PUBACK\<close>

lemma mqttGetQoS_clear_retain:
  "mqttGetQoS (f AND NOT mqttPubFlagRetain) = mqttGetQoS f"
proof -
  have c: "NOT 1 AND 6 = (6 :: byte)" by simp
  have "(f AND NOT 1) AND 6 = f AND (NOT 1 AND (6 :: byte))"
    by (simp only: and.assoc)
  with c have "(f AND NOT 1) AND 6 = f AND (6 :: byte)" by simp
  then show ?thesis
    by (simp add: mqttGetQoS_def mqttPubFlagRetain_def mqttPubFlagQoS_def)
qed

lemma mqttHandlePubRetain_message:
  "mqttHandlePubRetain addr username rt p = Inr (rt', p')
    \<Longrightarrow> p' = p\<lparr>flags := flags p AND NOT mqttPubFlagRetain\<rparr>"
  by (auto simp: mqttHandlePubRetain_def split: sum.splits)

lemma mqttParsePub_result:
  assumes "mqttParsePub r pl p0 = Inr (p, r')"
  shows "flags p = flags p0 \<and> mqttGetQoS (flags p0) \<le> 1
       \<and> (mqttGetQoS (flags p0) > 0 \<longrightarrow> pi p \<noteq> 0)
       \<and> (\<not> mqttGetQoS (flags p0) > 0 \<longrightarrow> pi p = pi p0)
       \<and> (\<exists>payload. msg p = payload @ CR_LF)"
  using assms
  unfolding mqttParsePub_def mqttGetQoS_def Let_def
  by (auto split: sum.splits if_splits prod.splits simp: not_less)

lemma mqttProcessPub_trace:
  assumes "mqttProcessPub addr username p st = Inr (p', st')" and "msg p = payload @ CR_LF"
  shows "pi p' = pi p
       \<and> trace st' = trace st
            @ (if mqttGetQoS (flags p) > 0
               then [Routed (pp_subject p) (flags p AND NOT mqttPubFlagRetain) (payload @ CR_LF),
                     StreamAppend (pp_subject p) payload]
               else [Routed (pp_subject p) (flags p AND NOT mqttPubFlagRetain) (payload @ CR_LF)])"
proof -
  from assms(1) obtain p1 st1 where
    i: "processInboundClientMsg addr username p st = Inr (p1, st1)"
    by (auto simp: mqttProcessPub_def split: sum.splits)
  then obtain rt where h: "mqttHandlePubRetain addr username (retained st) p = Inr (rt, p1)"
    and st1: "st1 = st\<lparr>retained := rt, trace := trace st @ [Routed (pp_subject p1) (flags p1) (msg p1)]\<rparr>"
    by (auto simp: processInboundClientMsg_def split: sum.splits)
  from mqttHandlePubRetain_message [OF h] have p1: "p1 = p\<lparr>flags := flags p AND NOT mqttPubFlagRetain\<rparr>" .
  then have q: "mqttGetQoS (flags p1) = mqttGetQoS (flags p)"
    by (simp add: mqttGetQoS_clear_retain)
  from assms i q p1 st1 show ?thesis
    by (auto simp: mqttProcessPub_def directProcessInboundJetStreamMsg_def LEN_CR_LF_def CR_LF_def
        split: if_splits)
qed

text \<open>
  C7. When the PUBLISH case of \<^verbatim>\<open>mqttParse\<close> returns, it has either stopped with an
  error and done nothing, or handled a QoS 0 message by giving it to the router only, or
  handled a QoS 1 message by giving it to the router, then appending its payload to the
  messages stream, and only then queueing the PUBACK with the packet identifier of the
  message, which is not 0. So a PUBACK is queued only for a QoS 1 message and only after
  the append to the stream.
\<close>

theorem puback_after_stream_append:
  assumes "mqttParse_pub addr username b pl r st = Inr (err, r', st')"
  shows "(err \<noteq> None \<and> trace st' = trace st)
       \<or> (err = None \<and> mqttGetQoS (b AND mqttPacketFlagMask) = 0
            \<and> (\<exists>subj fl m. trace st' = trace st @ [Routed subj fl m]))
       \<or> (err = None \<and> mqttGetQoS (b AND mqttPacketFlagMask) = 1
            \<and> (\<exists>subj fl payload (pid :: 16 word). pid \<noteq> 0
                  \<and> trace st' = trace st
                       @ [Routed subj fl (payload @ CR_LF),
                          StreamAppend subj payload,
                          EnqueueProto [mqttPacketPubAck, 0x2, ucast (drop_bit 8 pid), ucast pid]]))"
proof -
  let ?p0 = "\<lparr>pp_subject = [], msg = [], sz = 0, pi = 0, flags = b AND mqttPacketFlagMask,
              subjc = False, source = [], pp_sub = None\<rparr>"
  show ?thesis
  proof (cases "mqttParsePub r pl ?p0")
    case (Inl e)
    with assms show ?thesis
      by (auto simp: mqttParse_pub_def split: error.splits)
  next
    case (Inr pr)
    obtain p r1 where pr: "pr = (p, r1)" by (cases pr)
    from mqttParsePub_result [of r pl ?p0 p r1] Inr pr
    have fl: "flags p = b AND mqttPacketFlagMask"
      and q1: "mqttGetQoS (b AND mqttPacketFlagMask) \<le> 1"
      and pid: "mqttGetQoS (b AND mqttPacketFlagMask) > 0 \<longrightarrow> pi p \<noteq> 0"
      and nopid: "\<not> mqttGetQoS (b AND mqttPacketFlagMask) > 0 \<longrightarrow> pi p = 0"
      and "\<exists>payload. msg p = payload @ CR_LF"
      by simp_all
    then obtain payload where m: "msg p = payload @ CR_LF" by blast
    from assms Inr pr obtain p2 st2 where
      pp: "mqttProcessPub addr username p st = Inr (p2, st2)"
      by (auto simp: mqttParse_pub_def split: sum.splits)
    note t = mqttProcessPub_trace [OF pp m]
    show ?thesis
    proof (cases "mqttGetQoS (b AND mqttPacketFlagMask) > 0")
      case True
      with q1 have one: "mqttGetQoS (b AND mqttPacketFlagMask) = 1"
        by (metis word_le_less_eq word_less_1 not_less)
      from True pid t have "pi p2 \<noteq> 0" by simp
      then have "pi p2 > 0" by (simp add: word_greater_zero_iff)
      with assms Inr pr pp t True fl have
        "err = None \<and> trace st' = trace st
           @ [Routed (pp_subject p) (flags p AND NOT mqttPubFlagRetain) (payload @ CR_LF),
              StreamAppend (pp_subject p) payload,
              EnqueueProto [mqttPacketPubAck, 0x2, ucast (drop_bit 8 (pi p2)), ucast (pi p2)]]"
        by (auto simp: mqttParse_pub_def mqttEnqueuePubAck_def)
      with one \<open>pi p2 \<noteq> 0\<close> show ?thesis by auto
    next
      case False
      then have zero: "mqttGetQoS (b AND mqttPacketFlagMask) = 0"
        by (simp add: word_greater_zero_iff)
      from False nopid t have "pi p2 = 0" by simp
      with assms Inr pr pp t False fl have
        "err = None \<and> trace st' = trace st
           @ [Routed (pp_subject p) (flags p AND NOT mqttPubFlagRetain) (payload @ CR_LF)]"
        by (auto simp: mqttParse_pub_def)
      with zero show ?thesis by auto
    qed
  qed
qed


theorem puback_after_stream_append_witness:
  fixes R0 :: mqttReader and S0 :: pubState
  defines "R0 \<equiv> \<lparr>reader = \<lparr>pending = [], ends_eof = True\<rparr>,
          buf = [0x32, 9, 0, 3] @ bytes_of ''a/b'' @ [0, 7] @ bytes_of ''hi'' @ [0xc0, 0],
          pos = 2\<rparr>"
    and "S0 \<equiv> \<lparr>retained = \<lparr>sl = None, msgs = None\<rparr>, trace = []\<rparr>"
  shows "\<exists>r' st'. mqttParse_pub 1 (bytes_of ''u'') 0x32 9 R0 S0 = Inr (None, r', st')
           \<and> trace st' = [Routed (bytes_of ''a.b'') 2 (bytes_of ''hi'' @ CR_LF),
                       StreamAppend (bytes_of ''a.b'') (bytes_of ''hi''),
                       EnqueueProto [0x40, 2, 0, 7]]
           \<and> mqttGetQoS (0x32 AND mqttPacketFlagMask) = 1"
proof -
  have ev: "map_sum id (\<lambda>(e, r, st). (e, trace st)) (mqttParse_pub 1 (bytes_of ''u'') 0x32 9 R0 S0)
            = Inr (None, [Routed (bytes_of ''a.b'') 2 (bytes_of ''hi'' @ CR_LF),
                       StreamAppend (bytes_of ''a.b'') (bytes_of ''hi''),
                       EnqueueProto [0x40, 2, 0, 7]])"
    unfolding R0_def S0_def by code_simp
  then obtain r' st' where res: "mqttParse_pub 1 (bytes_of ''u'') 0x32 9 R0 S0 = Inr (None, r', st')"
    and tr: "trace st' = [Routed (bytes_of ''a.b'') 2 (bytes_of ''hi'' @ CR_LF),
                       StreamAppend (bytes_of ''a.b'') (bytes_of ''hi''),
                       EnqueueProto [0x40, 2, 0, 7]]"
    by (cases "mqttParse_pub 1 (bytes_of ''u'') 0x32 9 R0 S0") auto
  have t0: "trace S0 = []" by (simp add: S0_def)
  from puback_after_stream_append [OF res] tr t0
  have "mqttGetQoS (0x32 AND mqttPacketFlagMask) = 1" by auto
  with res tr show ?thesis by blast
qed

subsection \<open>CONNECT with an empty client ID\<close>

text \<open>
  The reader functions that return the reader with an error agree with the ones that do
  not.
\<close>

lemma readBytes_st_readBytes:
  "readBytes f cpy r = (case readBytes_st f cpy r of
                          (r', Inl e) \<Rightarrow> Inl e
                        | (r', Inr b) \<Rightarrow> Inr (b, r'))"
  by (simp add: readBytes_def readBytes_st_def Let_def split: sum.splits prod.splits)

lemma ensurePacketInBuffer_loop_st_loop:
  "ensurePacketInBuffer_loop pl b start c
     = (case ensurePacketInBuffer_loop_st pl b start c of
          (c', Inl e) \<Rightarrow> Inl e
        | (c', Inr b') \<Rightarrow> Inr (b', c'))"
proof (induction pl b start c rule: ensurePacketInBuffer_loop_st.induct)
  case (1 pl b start c)
  show ?case
  proof (cases "start \<noteq> pl \<and> \<not> start > pl \<and> pending c \<noteq> []")
    case True
    with "1.IH" [OF _ _ _ refl] show ?thesis
      by (subst ensurePacketInBuffer_loop.simps, subst ensurePacketInBuffer_loop_st.simps)
         (simp add: Let_def)
  next
    case False
    then show ?thesis
      by (subst ensurePacketInBuffer_loop.simps, subst ensurePacketInBuffer_loop_st.simps) auto
  qed
qed

lemma ensurePacketInBuffer_st_ensurePacketInBuffer:
  "ensurePacketInBuffer pl r
     = (case ensurePacketInBuffer_st pl r of
          (r', Some e) \<Rightarrow> Inl e
        | (r', None) \<Rightarrow> Inr r')"
  by (simp add: ensurePacketInBuffer_def ensurePacketInBuffer_st_def Let_def
      ensurePacketInBuffer_loop_st_loop split: sum.splits prod.splits)

lemma remaining_advance: "remaining (r\<lparr>pos := pos r + n\<rparr>) = drop n (remaining r)"
  by (simp add: remaining_def add.commute)

lemma remaining_length: "length (remaining r) = length (buf r) - pos r"
  by (simp add: remaining_def)

lemma remaining_nth: "i < length (remaining r) \<Longrightarrow> buf r ! (pos r + i) = remaining r ! i"
  by (simp add: remaining_def)

lemma ensurePacketInBuffer_st_enough:
  "pl \<le> int (length (buf r)) - int (pos r) \<Longrightarrow> ensurePacketInBuffer_st pl r = (r, None)"
  by (simp add: ensurePacketInBuffer_st_def)

lemma readByte_remaining:
  assumes "remaining r = b # rest"
  shows "readByte f r = Inr (b, r\<lparr>pos := pos r + 1\<rparr>)"
proof -
  from assms have "0 < length (remaining r)" by simp
  then have lt: "pos r < length (buf r)" by (simp add: remaining_length)
  from remaining_nth [of 0 r] assms have "buf r ! pos r = b" by simp
  with lt show ?thesis by (simp add: readByte_def)
qed

lemma readUint16_remaining:
  assumes "remaining r = a # b # rest"
  shows "readUint16 f r = Inr (push_bit 8 (ucast a) OR ucast b, r\<lparr>pos := pos r + 2\<rparr>)"
proof -
  from assms have "2 \<le> length (remaining r)" by simp
  then have lt: "pos r + 2 \<le> length (buf r)" by (simp add: remaining_length)
  from remaining_nth [of 0 r] remaining_nth [of 1 r] assms
  have "buf r ! pos r = a" "buf r ! (pos r + 1) = b" by simp_all
  with lt show ?thesis by (simp add: readUint16_def)
qed

lemma readBytes_st_remaining:
  assumes "remaining r = a # b # bs @ rest"
    and "unat (push_bit 8 (ucast a) OR ucast b :: 16 word) = length bs"
  shows "readBytes_st f cpy r = (r\<lparr>pos := pos r + (2 + length bs)\<rparr>, Inr bs)"
proof -
  from assms(1) have len: "length (remaining r) = 2 + length bs + length rest" by simp
  then have lt: "pos r + 2 + length bs \<le> length (buf r)" by (simp add: remaining_length)
  have "drop 2 (remaining r) = bs @ rest" using assms(1) by simp
  then have "drop (pos r + 2) (buf r) = bs @ rest"
    by (simp add: remaining_def add.commute)
  then have tk: "take (length bs) (drop (pos r + 2) (buf r)) = bs" by simp
  from readUint16_remaining [of r a b "bs @ rest" f] assms(1)
  have u: "readUint16 f r = Inr (push_bit 8 (ucast a) OR ucast b, r\<lparr>pos := pos r + 2\<rparr>)" by simp
  show ?thesis
  proof (cases "bs = []")
    case True
    with u assms(2) show ?thesis by (simp add: readBytes_st_def)
  next
    case False
    with u assms(2) lt tk show ?thesis by (simp add: readBytes_st_def Let_def)
  qed
qed

lemma word16_bytes:
  "push_bit 8 (ucast (ucast (drop_bit 8 w) :: byte)) OR ucast (ucast w :: byte) = (w :: 16 word)"
  by (rule bit_word_eqI) (auto simp add: bit_simps)

lemma readBytes_st_str16:
  assumes "remaining r = str16 bs @ rest" and "length bs < 65536"
  shows "readBytes_st f cpy r = (r\<lparr>pos := pos r + length (str16 bs)\<rparr>, Inr bs)"
proof -
  let ?w = "of_nat (length bs) :: 16 word"
  have u: "unat ?w = length bs" using assms(2) by (simp add: unat_of_nat)
  have "unat (push_bit 8 (ucast (ucast (drop_bit 8 ?w) :: byte)) OR ucast (ucast ?w :: byte) :: 16 word)
          = length bs"
    unfolding word16_bytes by (rule u)
  from readBytes_st_remaining [OF _ this, of r rest f cpy] assms(1) show ?thesis
    by (simp add: str16_def)
qed

lemma readString_st_str16:
  assumes "remaining r = str16 bs @ rest" and "length bs < 65536"
  shows "readString_st f r = (r\<lparr>pos := pos r + length (str16 bs)\<rparr>, None, bs)"
  using readBytes_st_str16 [OF assms, of f False] by (simp add: readString_st_def)

lemma pos_pos: "(r\<lparr>pos := pos r + a\<rparr>)\<lparr>pos := pos (r\<lparr>pos := pos r + a\<rparr>) + b\<rparr> = r\<lparr>pos := pos r + (a + b)\<rparr>"
  by (simp add: add.assoc)

lemma mqttParseConnect_will_fields:
  assumes rem: "remaining r = str16 wt @ str16 wm @ rest"
    and wt: "wt \<noteq> []" "length wt < 65536" "utf8Valid wt"
    and conv: "mqttTopicToNATSPubSubject wt = Inr (cpy, subj)"
    and wm: "length wm < 65536"
  shows "mqttParseConnect_will utf8Valid wqos wretain r
           = (Inr \<lparr>will_topic = subj, will_message = wm @ CR_LF,
                    will_qos = wqos, will_retain = wretain\<rparr>,
              r\<lparr>pos := pos r + (length (str16 wt) + length (str16 wm))\<rparr>)"
proof -
  let ?r1 = "r\<lparr>pos := pos r + length (str16 wt)\<rparr>"
  from rem have rem': "remaining r = str16 wt @ (str16 wm @ rest)" by simp
  have s1: "readBytes_st ''Will topic'' False r = (?r1, Inr wt)"
    by (rule readBytes_st_str16 [OF rem' wt(2)])
  have rem1: "remaining ?r1 = str16 wm @ rest"
    unfolding remaining_advance using rem by simp
  have s2: "readBytes_st ''Will message'' False ?r1
              = (?r1\<lparr>pos := pos ?r1 + length (str16 wm)\<rparr>, Inr wm)"
    by (rule readBytes_st_str16 [OF rem1 wm])
  show ?thesis
    unfolding mqttParseConnect_will_def s1
    using wt conv
    by (simp add: s2 copyBytes_def add.assoc)
qed

lemma mqttParseConnect_user_fields:
  assumes rem: "remaining r = (if hasUser then str16 u else []) @ (if hasPassword then str16 pw else []) @ rest"
    and u: "hasUser \<longrightarrow> u \<noteq> [] \<and> length u < 65536 \<and> utf8Valid u"
    and pw: "hasPassword \<longrightarrow> length pw < 65536"
  shows "mqttParseConnect_user utf8Valid hasUser hasPassword r opts
           = (None,
              r\<lparr>pos := pos r + (length (if hasUser then str16 u else [])
                                 + length (if hasPassword then str16 pw else []))\<rparr>,
              (let o1 = (if hasUser then opts\<lparr>Username := u\<rparr> else opts)
               in if hasPassword then o1\<lparr>Password := pw, Token := pw\<rparr> else o1))"
proof -
  let ?ub = "if hasUser then str16 u else []"
  let ?r1 = "r\<lparr>pos := pos r + length ?ub\<rparr>"
  let ?o1 = "if hasUser then opts\<lparr>Username := u\<rparr> else opts"
  have rem1: "remaining ?r1 = (if hasPassword then str16 pw else []) @ rest"
    unfolding remaining_advance using rem by simp
  have first: "(if hasUser then
              (case readString_st ''user name'' r of
                 (r, err, u) \<Rightarrow>
                   (let opts = opts\<lparr>Username := u\<rparr> in
                    case err of
                      Some e \<Rightarrow> (Some (0, e), r, opts)
                    | None \<Rightarrow>
                        if u = [] then
                          (Some (mqttConnAckRCBadUserOrPassword,
                                 ErrMsg ''empty user name not allowed''), r, opts)
                        else if \<not> utf8Valid u then
                          (Some (mqttConnAckRCBadUserOrPassword,
                                 ErrMsg ''invalid utf8 for user name''), r, opts)
                        else (None, r, opts)))
            else (None, r, opts)) = (None, ?r1, ?o1)"
  proof (cases hasUser)
    case True
    with rem have "remaining r = str16 u @ ((if hasPassword then str16 pw else []) @ rest)" by simp
    from readString_st_str16 [OF this, of "''user name''"] u True
    show ?thesis by simp
  next
    case False
    then show ?thesis by simp
  qed
  show ?thesis
  proof (cases hasPassword)
    case True
    with rem1 have "remaining ?r1 = str16 pw @ rest" by simp
    from readString_st_str16 [OF this, of "''password''"] pw True
    have s: "readString_st ''password'' ?r1
               = (r\<lparr>pos := pos r + (length ?ub + length (str16 pw))\<rparr>, None, pw)"
      by (simp add: add.assoc)
    show ?thesis
      unfolding mqttParseConnect_user_def first using True
      by (simp add: s Let_def)
  next
    case False
    show ?thesis
      unfolding mqttParseConnect_user_def first using False
      by (simp add: Let_def)
  qed
qed

lemma mqttParseConnect_empty_id:
  assumes rem: "remaining r = [0, 4] @ mqttProtoName @ [mqttProtoLevel, fl, k1, k2, 0, 0] @ rest"
    and pl: "pl \<le> int (length (buf r)) - int (pos r)"
    and reserved: "fl AND mqttConnFlagReserved = 0"
    and nowill: "fl AND mqttConnFlagWillFlag = 0 \<longrightarrow>
                   drop_bit 3 (fl AND mqttConnFlagWillQoS) = 0 \<and> fl AND mqttConnFlagWillRetain = 0"
    and haswill: "fl AND mqttConnFlagWillFlag \<noteq> 0 \<longrightarrow> drop_bit 3 (fl AND mqttConnFlagWillQoS) \<noteq> 3"
    and pw: "fl AND mqttConnFlagPasswordFlag \<noteq> 0 \<longrightarrow> fl AND mqttConnFlagUsernameFlag \<noteq> 0"
  shows "mqttParseConnect utf8Valid nuid r pl opts =
     (if fl AND mqttConnFlagCleanSession = 0 then
        (Inl (mqttConnAckRCIdentifierRejected,
              ErrMsg ''when client ID is empty, clean session flag must be set to 1''),
         r\<lparr>pos := pos r + 12\<rparr>, opts)
      else if \<not> utf8Valid nuid then
        (Inl (mqttConnAckRCIdentifierRejected, ErrMsg ''invalid utf8 for client ID''),
         r\<lparr>pos := pos r + 12\<rparr>, opts)
      else
        (case (if fl AND mqttConnFlagWillFlag \<noteq> 0 then
                 (case mqttParseConnect_will utf8Valid (drop_bit 3 (fl AND mqttConnFlagWillQoS))
                         (fl AND mqttConnFlagWillRetain \<noteq> 0) (r\<lparr>pos := pos r + 12\<rparr>) of
                    (Inl e, r) \<Rightarrow> (Inl e, r)
                  | (Inr wl, r) \<Rightarrow> (Inr (Some wl), r))
               else (Inr None, r\<lparr>pos := pos r + 12\<rparr>)) of
           (Inl e, r) \<Rightarrow> (Inl e, r, opts)
         | (Inr wl, r) \<Rightarrow>
             (case mqttParseConnect_user utf8Valid (fl AND mqttConnFlagUsernameFlag \<noteq> 0)
                     (fl AND mqttConnFlagPasswordFlag \<noteq> 0) r opts of
                (Some e, r, opts) \<Rightarrow> (Inl e, r, opts)
              | (None, r, opts) \<Rightarrow>
                  (Inr \<lparr>clientID = nuid,
                        rd = (if (push_bit 8 (ucast k1) OR ucast k2 :: 16 word) > 0
                              then (uint (push_bit 8 (ucast k1) OR ucast k2 :: 16 word) * 3 div 2)
                                   * 1000000000
                              else 0),
                        will = wl, cp_flags = fl\<rparr>, r, opts))))"
proof -
  have e: "ensurePacketInBuffer_st pl r = (r, None)"
    by (rule ensurePacketInBuffer_st_enough [OF pl])
  have l4: "unat (push_bit 8 (ucast (0 :: byte)) OR ucast (4 :: byte) :: 16 word) = length mqttProtoName"
    by (simp add: mqttProtoName_def bytes_of_def)
  from rem have rem0: "remaining r = 0 # 4 # mqttProtoName @ ([mqttProtoLevel, fl, k1, k2, 0, 0] @ rest)"
    by simp
  have s1: "readBytes_st ''protocol name'' False r
            = (r\<lparr>pos := pos r + 6\<rparr>, Inr mqttProtoName)"
    using readBytes_st_remaining [OF rem0 l4, of "''protocol name''" False]
    by (simp add: mqttProtoName_def bytes_of_def)
  have rem1: "remaining (r\<lparr>pos := pos r + 6\<rparr>) = mqttProtoLevel # fl # k1 # k2 # 0 # 0 # rest"
    unfolding remaining_advance using rem by (simp add: mqttProtoName_def bytes_of_def)
  have s2: "readByte ''protocol level'' (r\<lparr>pos := pos r + 6\<rparr>)
            = Inr (mqttProtoLevel, r\<lparr>pos := pos r + 7\<rparr>)"
    using readByte_remaining [OF rem1, of "''protocol level''"] by simp
  have rem2: "remaining (r\<lparr>pos := pos r + 7\<rparr>) = fl # k1 # k2 # 0 # 0 # rest"
    unfolding remaining_advance using rem by (simp add: mqttProtoName_def bytes_of_def)
  have s3: "readByte ''flags'' (r\<lparr>pos := pos r + 7\<rparr>) = Inr (fl, r\<lparr>pos := pos r + 8\<rparr>)"
    using readByte_remaining [OF rem2, of "''flags''"] by simp
  have rem3: "remaining (r\<lparr>pos := pos r + 8\<rparr>) = k1 # k2 # 0 # 0 # rest"
    unfolding remaining_advance using rem by (simp add: mqttProtoName_def bytes_of_def)
  have s4: "readUint16 ''keep alive'' (r\<lparr>pos := pos r + 8\<rparr>)
            = Inr (push_bit 8 (ucast k1) OR ucast k2, r\<lparr>pos := pos r + 10\<rparr>)"
    using readUint16_remaining [OF rem3, of "''keep alive''"] by simp
  have rem4: "remaining (r\<lparr>pos := pos r + 10\<rparr>) = 0 # 0 # [] @ rest"
    unfolding remaining_advance using rem by (simp add: mqttProtoName_def bytes_of_def)
  have l0: "unat (push_bit 8 (ucast (0 :: byte)) OR ucast (0 :: byte) :: 16 word) = length ([] :: bytes)"
    by simp
  have s5: "readString_st ''client ID'' (r\<lparr>pos := pos r + 10\<rparr>) = (r\<lparr>pos := pos r + 12\<rparr>, None, [])"
    using readBytes_st_remaining [OF rem4 l0, of "''client ID''" False] by (simp add: readString_st_def)
  show ?thesis
    unfolding mqttParseConnect_def
    using reserved nowill haswill pw
    by (auto simp: e s1 s2 s3 s4 s5 Let_def)
qed

text \<open>
  C8. A CONNECT packet with a well-formed header (protocol name and level, reserved flag
  0, coherent Will and password flags) and an empty client ID. Without the clean session
  flag, whatever follows the client ID, \<^verbatim>\<open>mqttParseConnect\<close> fails with return code 2
  (identifier rejected), the reader standing after the client ID, and \<^verbatim>\<open>mqttParse\<close> then
  queues the CONNACK \<^verbatim>\<open>20 02 00 02\<close> for the client, leaves it unconnected, touches
  nothing else and returns the error. With the clean session flag, the client ID of every
  successful parse is the generated one, and the parse is successful whenever the
  generated ID is valid UTF-8 and the fields that the flags announce (Will topic and
  message, user name, password) follow, well-formed: its result has the generated ID, the
  Will and the flags, the options have the user name and the password, the reader stands
  after the fields, and \<^verbatim>\<open>mqttParse\<close> hands this result, with the generated ID, to
  \<^verbatim>\<open>mqttProcessConnect\<close> and queues the CONNACK for what that returns.
\<close>

theorem connect_empty_client_id:
  assumes hdr: "remaining r = [0, 4] @ mqttProtoName @ [mqttProtoLevel, fl, k1, k2, 0, 0] @ rest"
    and pl: "pl \<le> int (length (buf r)) - int (pos r)"
    and reserved: "fl AND mqttConnFlagReserved = 0"
    and nowill: "fl AND mqttConnFlagWillFlag = 0 \<longrightarrow>
           drop_bit 3 (fl AND mqttConnFlagWillQoS) = 0 \<and> fl AND mqttConnFlagWillRetain = 0"
    and haswill: "fl AND mqttConnFlagWillFlag \<noteq> 0 \<longrightarrow> drop_bit 3 (fl AND mqttConnFlagWillQoS) \<noteq> 3"
    and pwuser: "fl AND mqttConnFlagPasswordFlag \<noteq> 0 \<longrightarrow> fl AND mqttConnFlagUsernameFlag \<noteq> 0"
    and cl: "clients s c = Some cl" and opts: "c_opts cl = opts"
  shows "(fl AND mqttConnFlagCleanSession = 0 \<longrightarrow>
            mqttParseConnect utf8Valid nuid r pl opts
              = (Inl (mqttConnAckRCIdentifierRejected,
                      ErrMsg ''when client ID is empty, clean session flag must be set to 1''),
                 r\<lparr>pos := pos r + 12\<rparr>, opts)
          \<and> mqttParse_connect env utf8Valid nuid c False keep pl r s
              = Inr (Some (ErrMsg ''when client ID is empty, clean session flag must be set to 1''),
                     False, keep, r\<lparr>pos := pos r + 12\<rparr>,
                     s\<lparr>clients := (clients s)
                          (c \<mapsto> cl\<lparr>out := out cl @ [[mqttPacketConnectAck, 2, 0,
                                                      mqttConnAckRCIdentifierRejected]]\<rparr>)\<rparr>))
       \<and> (fl AND mqttConnFlagCleanSession \<noteq> 0 \<longrightarrow>
            (\<forall>cpr r' opts'. mqttParseConnect utf8Valid nuid r pl opts = (Inr cpr, r', opts')
                \<longrightarrow> clientID cpr = nuid \<and> cp_flags cpr = fl)
          \<and> (utf8Valid nuid
              \<and> rest = (if fl AND mqttConnFlagWillFlag \<noteq> 0 then str16 wt @ str16 wm else [])
                       @ (if fl AND mqttConnFlagUsernameFlag \<noteq> 0 then str16 u else [])
                       @ (if fl AND mqttConnFlagPasswordFlag \<noteq> 0 then str16 pw else []) @ tail
              \<and> (fl AND mqttConnFlagWillFlag \<noteq> 0 \<longrightarrow>
                    wt \<noteq> [] \<and> length wt < 65536 \<and> utf8Valid wt \<and> length wm < 65536
                    \<and> mqttTopicToNATSPubSubject wt = Inr (cpy, subj))
              \<and> (fl AND mqttConnFlagUsernameFlag \<noteq> 0 \<longrightarrow>
                    u \<noteq> [] \<and> length u < 65536 \<and> utf8Valid u)
              \<and> (fl AND mqttConnFlagPasswordFlag \<noteq> 0 \<longrightarrow> length pw < 65536)
              \<longrightarrow>
              (\<exists>cpr r' opts'.
                  mqttParseConnect utf8Valid nuid r pl opts = (Inr cpr, r', opts')
                \<and> cpr = \<lparr>clientID = nuid,
                          rd = (if (push_bit 8 (ucast k1) OR ucast k2 :: 16 word) > 0
                                then (uint (push_bit 8 (ucast k1) OR ucast k2 :: 16 word) * 3 div 2)
                                     * 1000000000
                                else 0),
                          will = (if fl AND mqttConnFlagWillFlag \<noteq> 0
                                  then Some \<lparr>will_topic = subj, will_message = wm @ CR_LF,
                                             will_qos = drop_bit 3 (fl AND mqttConnFlagWillQoS),
                                             will_retain = (fl AND mqttConnFlagWillRetain \<noteq> 0)\<rparr>
                                  else None),
                          cp_flags = fl\<rparr>
                \<and> pos r' = pos r + 12 + (length rest - length tail)
                \<and> remaining r' = tail
                \<and> reader r' = reader r
                \<and> opts' = (let o1 = (if fl AND mqttConnFlagUsernameFlag \<noteq> 0
                                      then opts\<lparr>Username := u\<rparr> else opts)
                           in if fl AND mqttConnFlagPasswordFlag \<noteq> 0
                              then o1\<lparr>Password := pw, Token := pw\<rparr> else o1)
                \<and> mqttParse_connect env utf8Valid nuid c False keep pl r s
                    = (case mqttProcessConnect env c cpr
                              (s\<lparr>clients := (clients s)(c \<mapsto> cl\<lparr>c_opts := opts'\<rparr>)\<rparr>) of
                         Inl e \<Rightarrow> Inl e
                       | Inr ((rc, keep', sessp, err), s') \<Rightarrow>
                           (case clients s' c of
                              None \<Rightarrow> Inl Panic
                            | Some cl' \<Rightarrow>
                                (let cl' = (if err = None \<or> rc \<noteq> 0
                                            then mqttEnqueueConnAck rc sessp cl' else cl');
                                     cl' = (if err = Some ErrAuthentication
                                            then cl'\<lparr>closed := Some AuthenticationViolation\<rparr>
                                            else cl')
                                 in Inr (err, err = None, keep', r',
                                         s'\<lparr>clients := (clients s')(c \<mapsto> cl')\<rparr>)))))))"
proof -
  note p = mqttParseConnect_empty_id [OF hdr pl reserved nowill haswill pwuser, of utf8Valid nuid opts]
  let ?r12 = "r\<lparr>pos := pos r + 12\<rparr>"
  have rem12: "remaining ?r12 = rest"
    unfolding remaining_advance using hdr by (simp add: mqttProtoName_def bytes_of_def)
  from opts have o: "opts = c_opts cl" by simp
  have rej: "mqttParseConnect utf8Valid nuid r pl opts
              = (Inl (mqttConnAckRCIdentifierRejected,
                      ErrMsg ''when client ID is empty, clean session flag must be set to 1''),
                 ?r12, opts)"
    if "fl AND mqttConnFlagCleanSession = 0"
    using p that by simp
  have disp: "mqttParse_connect env utf8Valid nuid c False keep pl r s
              = Inr (Some (ErrMsg ''when client ID is empty, clean session flag must be set to 1''),
                     False, keep, ?r12,
                     s\<lparr>clients := (clients s)
                          (c \<mapsto> cl\<lparr>out := out cl @ [[mqttPacketConnectAck, 2, 0,
                                                      mqttConnAckRCIdentifierRejected]]\<rparr>)\<rparr>)"
    if "fl AND mqttConnFlagCleanSession = 0"
    using rej [OF that] cl unfolding o
    by (simp add: mqttParse_connect_def mqttEnqueueConnAck_def Let_def
        mqttConnAckRCIdentifierRejected_def)
  have gen: "clientID cpr = nuid \<and> cp_flags cpr = fl"
    if "fl AND mqttConnFlagCleanSession \<noteq> 0"
      and "mqttParseConnect utf8Valid nuid r pl opts = (Inr cpr, r', opts')"
    for cpr r' opts'
    using p that by (auto split: if_splits sum.splits prod.splits option.splits)
  have ok: "\<exists>cpr r' opts'.
                  mqttParseConnect utf8Valid nuid r pl opts = (Inr cpr, r', opts')
                \<and> cpr = \<lparr>clientID = nuid,
                          rd = (if (push_bit 8 (ucast k1) OR ucast k2 :: 16 word) > 0
                                then (uint (push_bit 8 (ucast k1) OR ucast k2 :: 16 word) * 3 div 2)
                                     * 1000000000
                                else 0),
                          will = (if fl AND mqttConnFlagWillFlag \<noteq> 0
                                  then Some \<lparr>will_topic = subj, will_message = wm @ CR_LF,
                                             will_qos = drop_bit 3 (fl AND mqttConnFlagWillQoS),
                                             will_retain = (fl AND mqttConnFlagWillRetain \<noteq> 0)\<rparr>
                                  else None),
                          cp_flags = fl\<rparr>
                \<and> pos r' = pos r + 12 + (length rest - length tail)
                \<and> remaining r' = tail
                \<and> reader r' = reader r
                \<and> opts' = (let o1 = (if fl AND mqttConnFlagUsernameFlag \<noteq> 0
                                      then opts\<lparr>Username := u\<rparr> else opts)
                           in if fl AND mqttConnFlagPasswordFlag \<noteq> 0
                              then o1\<lparr>Password := pw, Token := pw\<rparr> else o1)
                \<and> mqttParse_connect env utf8Valid nuid c False keep pl r s
                    = (case mqttProcessConnect env c cpr
                              (s\<lparr>clients := (clients s)(c \<mapsto> cl\<lparr>c_opts := opts'\<rparr>)\<rparr>) of
                         Inl e \<Rightarrow> Inl e
                       | Inr ((rc, keep', sessp, err), s') \<Rightarrow>
                           (case clients s' c of
                              None \<Rightarrow> Inl Panic
                            | Some cl' \<Rightarrow>
                                (let cl' = (if err = None \<or> rc \<noteq> 0
                                            then mqttEnqueueConnAck rc sessp cl' else cl');
                                     cl' = (if err = Some ErrAuthentication
                                            then cl'\<lparr>closed := Some AuthenticationViolation\<rparr>
                                            else cl')
                                 in Inr (err, err = None, keep', r',
                                         s'\<lparr>clients := (clients s')(c \<mapsto> cl')\<rparr>))))"
    if clean: "fl AND mqttConnFlagCleanSession \<noteq> 0" and nu: "utf8Valid nuid"
      and rest: "rest = (if fl AND mqttConnFlagWillFlag \<noteq> 0 then str16 wt @ str16 wm else [])
                       @ (if fl AND mqttConnFlagUsernameFlag \<noteq> 0 then str16 u else [])
                       @ (if fl AND mqttConnFlagPasswordFlag \<noteq> 0 then str16 pw else []) @ tail"
      and wl: "fl AND mqttConnFlagWillFlag \<noteq> 0 \<longrightarrow>
                    wt \<noteq> [] \<and> length wt < 65536 \<and> utf8Valid wt \<and> length wm < 65536
                    \<and> mqttTopicToNATSPubSubject wt = Inr (cpy, subj)"
      and us: "fl AND mqttConnFlagUsernameFlag \<noteq> 0 \<longrightarrow>
                    u \<noteq> [] \<and> length u < 65536 \<and> utf8Valid u"
      and pa: "fl AND mqttConnFlagPasswordFlag \<noteq> 0 \<longrightarrow> length pw < 65536"
  proof -
    let ?hw = "fl AND mqttConnFlagWillFlag \<noteq> 0"
    let ?hu = "fl AND mqttConnFlagUsernameFlag \<noteq> 0"
    let ?hp = "fl AND mqttConnFlagPasswordFlag \<noteq> 0"
    let ?W = "if ?hw then str16 wt @ str16 wm else []"
    let ?U = "if ?hu then str16 u else []"
    let ?P = "if ?hp then str16 pw else []"
    let ?wqos = "drop_bit 3 (fl AND mqttConnFlagWillQoS)"
    let ?wret = "fl AND mqttConnFlagWillRetain \<noteq> 0"
    let ?wl = "if ?hw then Some \<lparr>will_topic = subj, will_message = wm @ CR_LF,
                                   will_qos = ?wqos, will_retain = ?wret\<rparr> else None"
    let ?rw = "r\<lparr>pos := pos r + (12 + length ?W)\<rparr>"
    let ?r' = "r\<lparr>pos := pos r + (12 + length ?W + (length ?U + length ?P))\<rparr>"
    let ?o' = "let o1 = (if ?hu then opts\<lparr>Username := u\<rparr> else opts)
               in if ?hp then o1\<lparr>Password := pw, Token := pw\<rparr> else o1"
    let ?cp = "\<lparr>clientID = nuid,
                rd = (if (push_bit 8 (ucast k1) OR ucast k2 :: 16 word) > 0
                      then (uint (push_bit 8 (ucast k1) OR ucast k2 :: 16 word) * 3 div 2)
                           * 1000000000
                      else 0),
                will = ?wl, cp_flags = fl\<rparr>"
    have wstage: "(if ?hw then
                 (case mqttParseConnect_will utf8Valid ?wqos ?wret ?r12 of
                    (Inl e, r) \<Rightarrow> (Inl e, r)
                  | (Inr wl, r) \<Rightarrow> (Inr (Some wl), r))
               else (Inr None, ?r12)) = (Inr ?wl, ?rw)"
    proof (cases ?hw)
      case True
      with rem12 rest have "remaining ?r12 = str16 wt @ str16 wm @ (?U @ ?P @ tail)" by simp
      from mqttParseConnect_will_fields [OF this, of utf8Valid cpy subj ?wqos ?wret] wl True
      show ?thesis by (simp add: add.assoc)
    next
      case False
      then show ?thesis by simp
    qed
    have "?rw = ?r12\<lparr>pos := pos ?r12 + length ?W\<rparr>" by (simp add: add.assoc)
    then have "remaining ?rw = drop (length ?W) (remaining ?r12)"
      by (simp only: remaining_advance)
    then have remw: "remaining ?rw = ?U @ ?P @ tail"
      unfolding rem12 by (subst (asm) rest) simp
    from mqttParseConnect_user_fields [OF remw, of utf8Valid opts] us pa
    have ustage: "mqttParseConnect_user utf8Valid ?hu ?hp ?rw opts = (None, ?r', ?o')"
      by (simp add: add.assoc)
    have parse: "mqttParseConnect utf8Valid nuid r pl opts = (Inr ?cp, ?r', ?o')"
      unfolding p wstage using clean nu by (simp add: ustage)
    have a1: "pos ?r' = pos r + 12 + (length rest - length tail)"
      unfolding rest by simp
    have "?r' = ?rw\<lparr>pos := pos ?rw + (length ?U + length ?P)\<rparr>" by (simp add: add.assoc)
    then have "remaining ?r' = drop (length ?U + length ?P) (remaining ?rw)"
      by (simp only: remaining_advance)
    then have a2: "remaining ?r' = tail"
      unfolding remw by simp
    have a3: "reader ?r' = reader r" by simp
    define cpr where "cpr = ?cp"
    define r' where "r' = ?r'"
    define opts' where "opts' = ?o'"
    from parse have parse': "mqttParseConnect utf8Valid nuid r pl opts = (Inr cpr, r', opts')"
      by (simp only: cpr_def r'_def opts'_def)
    have disp2: "mqttParse_connect env utf8Valid nuid c False keep pl r s
                    = (case mqttProcessConnect env c cpr
                              (s\<lparr>clients := (clients s)(c \<mapsto> cl\<lparr>c_opts := opts'\<rparr>)\<rparr>) of
                         Inl e \<Rightarrow> Inl e
                       | Inr ((rc, keep', sessp, err), s') \<Rightarrow>
                           (case clients s' c of
                              None \<Rightarrow> Inl Panic
                            | Some cl' \<Rightarrow>
                                (let cl' = (if err = None \<or> rc \<noteq> 0
                                            then mqttEnqueueConnAck rc sessp cl' else cl');
                                     cl' = (if err = Some ErrAuthentication
                                            then cl'\<lparr>closed := Some AuthenticationViolation\<rparr>
                                            else cl')
                                 in Inr (err, err = None, keep', r',
                                         s'\<lparr>clients := (clients s')(c \<mapsto> cl')\<rparr>))))"
    proof (cases "mqttProcessConnect env c cpr
                    (s\<lparr>clients := (clients s)(c \<mapsto> cl\<lparr>c_opts := opts'\<rparr>)\<rparr>)")
      case (Inl e)
      with parse' cl opts show ?thesis
        by (simp add: mqttParse_connect_def)
    next
      case (Inr x)
      obtain rc keep' sessp err s' where x: "x = ((rc, keep', sessp, err), s')"
        by (metis surj_pair)
      from Inr x parse' cl opts show ?thesis
        by (cases "clients s' c"; cases err) (simp_all add: mqttParse_connect_def Let_def)
    qed
    have a1': "pos r' = pos r + 12 + (length rest - length tail)"
      using a1 by (simp only: r'_def)
    have a2': "remaining r' = tail" using a2 by (simp only: r'_def)
    have a3': "reader r' = reader r" using a3 by (simp only: r'_def)
    from parse' a1' a2' a3' disp2 cpr_def opts'_def show ?thesis by blast
  qed
  from rej disp gen ok show ?thesis by blast
qed

theorem connect_empty_client_id_witness:
  fixes env :: "unit connEnv" and R :: "byte \<Rightarrow> mqttReader" and CL :: client and S :: "unit srv"
    and N :: bytes and O0 O1 :: clientOpts and CP :: mqttConnectProto
  defines "R \<equiv> \<lambda>fl. \<lparr>reader = \<lparr>pending = [], ends_eof = True\<rparr>,
                       buf = [0x10, 27, 0, 4] @ bytes_of ''MQTT'' @ [4, fl, 0, 10, 0, 0]
                             @ str16 (bytes_of ''a/b'') @ str16 (bytes_of ''hi'')
                             @ str16 (bytes_of ''u'') @ str16 (bytes_of ''p''),
                       pos = 2\<rparr>"
    and "O0 \<equiv> \<lparr>Username = [], Password = [], Token = []\<rparr>"
    and "O1 \<equiv> \<lparr>Username = bytes_of ''u'', Password = bytes_of ''p'', Token = bytes_of ''p''\<rparr>"
    and "CL \<equiv> \<lparr>c_mqtt = \<lparr>cp = None, pp = None, ppi = 0, cons = None, acks = None\<rparr>,
               connectReceived = False, c_opts = O0, out = [], closed = None\<rparr>"
    and "S \<equiv> \<lparr>clients = [1 \<mapsto> CL], sessmgr = None, spawned = [], host = ()\<rparr>"
    and "N \<equiv> bytes_of ''NUID''"
    and "CP \<equiv> \<lparr>clientID = N, rd = 15000000000,
                will = Some \<lparr>will_topic = bytes_of ''a.b'', will_message = bytes_of ''hi'' @ CR_LF,
                             will_qos = 1, will_retain = True\<rparr>,
                cp_flags = 0xEE\<rparr>"
    and "env \<equiv> \<lparr>isClientAuthorized = (\<lambda>c h. (True, h)), JetStreamEnabled = (\<lambda>h. True),
                 asm_init = (\<lambda>h. (Inr \<lparr>sessions = Map.empty, sstream = True\<rparr>, h)),
                 deleteConsumers = (\<lambda>cs h. h), DeleteMsg = (\<lambda>n h. h),
                 StoreMsg = (\<lambda>ps h. (Inr 2, h)), rangeSubs = (\<lambda>m. []),
                 subs_env = \<lparr>mqttSerializeRetainedMsgsForSub = (\<lambda>sub w. (sub, w)),
                             processSub = (\<lambda>sub w. ((Some sub, None), w)),
                             mqttProcessJSConsumerForSubject = (\<lambda>subj sd q w. ((None, None, None), w)),
                             mqttCleanupFailedSub = (\<lambda>sub jscons jssub w. w),
                             mqttAddJSConsumer = (\<lambda>cs sd w. w),
                             updateSession = (\<lambda>fs add w. (None, w))\<rparr>\<rparr>"
  shows "mqttParseConnect (\<lambda>b. True) N (R 0xEC) 27 O0
           = (Inl (2, ErrMsg ''when client ID is empty, clean session flag must be set to 1''),
              (R 0xEC)\<lparr>pos := 14\<rparr>, O0)
       \<and> mqttParse_connect env (\<lambda>b. True) N 1 False 0 27 (R 0xEC) S
           = Inr (Some (ErrMsg ''when client ID is empty, clean session flag must be set to 1''),
                  False, 0, (R 0xEC)\<lparr>pos := 14\<rparr>,
                  S\<lparr>clients := (clients S)(1 \<mapsto> CL\<lparr>out := out CL @ [[0x20, 2, 0, 2]]\<rparr>)\<rparr>)
       \<and> (\<exists>r'. mqttParseConnect (\<lambda>b. True) N (R 0xEE) 27 O0 = (Inr CP, r', O1)
              \<and> pos r' = 29 \<and> remaining r' = []
              \<and> mqttParse_connect env (\<lambda>b. True) N 1 False 0 27 (R 0xEE) S
                  = Inr (None, True, 15000000000, r',
                         \<lparr>clients = [1 \<mapsto> CL\<lparr>c_mqtt := (c_mqtt CL)\<lparr>cp := Some CP\<rparr>,
                                             connectReceived := True, c_opts := O1,
                                             out := [[0x20, 2, 0, 0]]\<rparr>],
                          sessmgr = Some \<lparr>sessions = [N \<mapsto> \<lparr>sess_c = Some 1, sess_clean = True,
                                                              sess_subs = Map.empty, sess_cons = None,
                                                              sseq = 2\<rparr>],
                                          sstream = True\<rparr>,
                          spawned = [], host = ()\<rparr>))"
proof -
  have a1: "remaining (R fl) = [0, 4] @ mqttProtoName @ [mqttProtoLevel, fl, 0, 10, 0, 0]
              @ (str16 (bytes_of ''a/b'') @ str16 (bytes_of ''hi'')
                 @ str16 (bytes_of ''u'') @ str16 (bytes_of ''p''))" for fl
    by (simp add: R_def remaining_def mqttProtoName_def mqttProtoLevel_def)
  have a2: "27 \<le> int (length (buf (R fl))) - int (pos (R fl))" for fl
    by (simp add: R_def bytes_of_def str16_def)
  have a7: "clients S 1 = Some CL" by (simp add: S_def)
  have a8: "c_opts CL = O0" by (simp add: CL_def)
  have fEC: "(0xEC :: byte) AND mqttConnFlagReserved = 0"
    "(0xEC :: byte) AND mqttConnFlagWillFlag \<noteq> 0"
    "drop_bit 3 ((0xEC :: byte) AND mqttConnFlagWillQoS) = 1"
    "(0xEC :: byte) AND mqttConnFlagUsernameFlag \<noteq> 0"
    "(0xEC :: byte) AND mqttConnFlagCleanSession = 0"
    by (simp_all add: mqttConnFlagReserved_def mqttConnFlagWillFlag_def mqttConnFlagWillQoS_def
        mqttConnFlagUsernameFlag_def mqttConnFlagCleanSession_def)
  have fEE: "(0xEE :: byte) AND mqttConnFlagReserved = 0"
    "(0xEE :: byte) AND mqttConnFlagWillFlag \<noteq> 0"
    "drop_bit 3 ((0xEE :: byte) AND mqttConnFlagWillQoS) = 1"
    "(0xEE :: byte) AND mqttConnFlagWillRetain \<noteq> 0"
    "(0xEE :: byte) AND mqttConnFlagUsernameFlag \<noteq> 0"
    "(0xEE :: byte) AND mqttConnFlagPasswordFlag \<noteq> 0"
    "(0xEE :: byte) AND mqttConnFlagCleanSession \<noteq> 0"
    by (simp_all add: mqttConnFlagReserved_def mqttConnFlagWillFlag_def mqttConnFlagWillQoS_def
        mqttConnFlagUsernameFlag_def mqttConnFlagCleanSession_def mqttConnFlagWillRetain_def
        mqttConnFlagPasswordFlag_def)
  have conv: "mqttTopicToNATSPubSubject (bytes_of ''a/b'') = Inr (False, bytes_of ''a.b'')"
    by code_simp
  have refuse: "mqttParseConnect (\<lambda>b. True) N (R 0xEC) 27 O0
          = (Inl (mqttConnAckRCIdentifierRejected,
                  ErrMsg ''when client ID is empty, clean session flag must be set to 1''),
             (R 0xEC)\<lparr>pos := pos (R 0xEC) + 12\<rparr>, O0)
       \<and> mqttParse_connect env (\<lambda>b. True) N 1 False 0 27 (R 0xEC) S
           = Inr (Some (ErrMsg ''when client ID is empty, clean session flag must be set to 1''),
                  False, 0, (R 0xEC)\<lparr>pos := pos (R 0xEC) + 12\<rparr>,
                  S\<lparr>clients := (clients S)
                       (1 \<mapsto> CL\<lparr>out := out CL @ [[mqttPacketConnectAck, 2, 0,
                                                  mqttConnAckRCIdentifierRejected]]\<rparr>)\<rparr>)"
    using connect_empty_client_id [OF a1 [of "0xEC"] a2 [of "0xEC"] _ _ _ _ a7 a8,
        where utf8Valid = "\<lambda>b. True" and nuid = N and env = env and keep = 0] fEC
    by simp
  have accept: "\<exists>cpr r' opts'.
         mqttParseConnect (\<lambda>b. True) N (R 0xEE) 27 O0 = (Inr cpr, r', opts')
       \<and> cpr = CP \<and> pos r' = 29 \<and> remaining r' = [] \<and> opts' = O1
       \<and> mqttParse_connect env (\<lambda>b. True) N 1 False 0 27 (R 0xEE) S
            = (case mqttProcessConnect env 1 cpr
                      (S\<lparr>clients := (clients S)(1 \<mapsto> CL\<lparr>c_opts := opts'\<rparr>)\<rparr>) of
                 Inl e \<Rightarrow> Inl e
               | Inr ((rc, keep', sessp, err), s') \<Rightarrow>
                   (case clients s' 1 of
                      None \<Rightarrow> Inl Panic
                    | Some cl' \<Rightarrow>
                        (let cl' = (if err = None \<or> rc \<noteq> 0
                                    then mqttEnqueueConnAck rc sessp cl' else cl');
                             cl' = (if err = Some ErrAuthentication
                                    then cl'\<lparr>closed := Some AuthenticationViolation\<rparr>
                                    else cl')
                         in Inr (err, err = None, keep', r',
                                 s'\<lparr>clients := (clients s')(1 \<mapsto> cl')\<rparr>))))"
    using connect_empty_client_id [OF a1 [of "0xEE"] a2 [of "0xEE"] _ _ _ _ a7 a8,
        where utf8Valid = "\<lambda>b. True" and nuid = N and env = env and keep = 0
          and wt = "bytes_of ''a/b''" and wm = "bytes_of ''hi''" and u = "bytes_of ''u''"
          and pw = "bytes_of ''p''" and tail = "[]" and cpy = False and subj = "bytes_of ''a.b''"]
      fEE conv
    by (auto simp add: CP_def O1_def O0_def R_def str16_def bytes_of_def)
  have pc: "mqttProcessConnect env 1 CP (S\<lparr>clients := (clients S)(1 \<mapsto> CL\<lparr>c_opts := O1\<rparr>)\<rparr>)
              = Inr ((0, 15000000000, False, None),
                     \<lparr>clients = [1 \<mapsto> CL\<lparr>c_mqtt := (c_mqtt CL)\<lparr>cp := Some CP\<rparr>,
                                         connectReceived := True, c_opts := O1\<rparr>],
                      sessmgr = Some \<lparr>sessions = [N \<mapsto> \<lparr>sess_c = Some 1, sess_clean = True,
                                                          sess_subs = Map.empty, sess_cons = None,
                                                          sseq = 2\<rparr>],
                                      sstream = True\<rparr>,
                      spawned = [], host = ()\<rparr>)"
    by (simp add: mqttProcessConnect_def env_def S_def CL_def CP_def
        getOrCreateAccountSessionManager_def saveSession_def Let_def
        mqttConnFlagCleanSession_def mqttConnAckRCConnectionAccepted_def)
  from accept obtain r' where
    p: "mqttParseConnect (\<lambda>b. True) N (R 0xEE) 27 O0 = (Inr CP, r', O1)"
    and r': "pos r' = 29" "remaining r' = []"
    and d: "mqttParse_connect env (\<lambda>b. True) N 1 False 0 27 (R 0xEE) S
            = (case mqttProcessConnect env 1 CP
                      (S\<lparr>clients := (clients S)(1 \<mapsto> CL\<lparr>c_opts := O1\<rparr>)\<rparr>) of
                 Inl e \<Rightarrow> Inl e
               | Inr ((rc, keep', sessp, err), s') \<Rightarrow>
                   (case clients s' 1 of
                      None \<Rightarrow> Inl Panic
                    | Some cl' \<Rightarrow>
                        (let cl' = (if err = None \<or> rc \<noteq> 0
                                    then mqttEnqueueConnAck rc sessp cl' else cl');
                             cl' = (if err = Some ErrAuthentication
                                    then cl'\<lparr>closed := Some AuthenticationViolation\<rparr>
                                    else cl')
                         in Inr (err, err = None, keep', r',
                                 s'\<lparr>clients := (clients s')(1 \<mapsto> cl')\<rparr>))))"
    by blast
  have d': "mqttParse_connect env (\<lambda>b. True) N 1 False 0 27 (R 0xEE) S
                  = Inr (None, True, 15000000000, r',
                         \<lparr>clients = [1 \<mapsto> CL\<lparr>c_mqtt := (c_mqtt CL)\<lparr>cp := Some CP\<rparr>,
                                             connectReceived := True, c_opts := O1,
                                             out := [[0x20, 2, 0, 0]]\<rparr>],
                          sessmgr = Some \<lparr>sessions = [N \<mapsto> \<lparr>sess_c = Some 1, sess_clean = True,
                                                              sess_subs = Map.empty, sess_cons = None,
                                                              sseq = 2\<rparr>],
                                          sstream = True\<rparr>,
                          spawned = [], host = ()\<rparr>)"
    unfolding d pc
    by (simp add: mqttEnqueueConnAck_def mqttPacketConnectAck_def CL_def)
  from refuse have refuse': "mqttParseConnect (\<lambda>b. True) N (R 0xEC) 27 O0
           = (Inl (2, ErrMsg ''when client ID is empty, clean session flag must be set to 1''),
              (R 0xEC)\<lparr>pos := 14\<rparr>, O0)
       \<and> mqttParse_connect env (\<lambda>b. True) N 1 False 0 27 (R 0xEC) S
           = Inr (Some (ErrMsg ''when client ID is empty, clean session flag must be set to 1''),
                  False, 0, (R 0xEC)\<lparr>pos := 14\<rparr>,
                  S\<lparr>clients := (clients S)(1 \<mapsto> CL\<lparr>out := out CL @ [[0x20, 2, 0, 2]]\<rparr>)\<rparr>)"
    by (simp add: mqttConnAckRCIdentifierRejected_def mqttPacketConnectAck_def R_def)
  from refuse' p r' d' show ?thesis by blast
qed

subsection \<open>Takeover of a session\<close>

lemma clearSession_sess_c: "sess_c (fst (clearSession env a es h)) = sess_c es"
  by (simp add: clearSession_def Let_def split: option.splits prod.splits)

lemma mqttProcessConnect_existing_takeover:
  assumes "sess_c es = Some ec" and "clients s ec = Some e" and "cp (c_mqtt e) = Some ecp"
  shows "\<exists>es' cs sessp s'.
           mqttProcessConnect_existing env a c cleanSess es s = Inr (es', cs, sessp, s')
         \<and> sess_c es' = Some c \<and> sess_clean es' = cleanSess
         \<and> clients s' = (clients s)(ec \<mapsto> e\<lparr>c_mqtt := (c_mqtt e)\<lparr>cp := Some (ecp\<lparr>will := None\<rparr>)\<rparr>\<rparr>)
         \<and> spawned s' = spawned s @ [(ec, DuplicateClientID)]
         \<and> sessmgr s' = sessmgr s"
proof (cases "cleanSess \<or> sess_clean es")
  case True
  obtain es1 h1 where c: "clearSession env a es (host s) = (es1, h1)"
    by (cases "clearSession env a es (host s)")
  with clearSession_sess_c [of env a es "host s"] assms(1) have "sess_c es1 = Some ec" by simp
  with True c assms(2,3) show ?thesis
    by (auto simp: mqttProcessConnect_existing_def)
next
  case False
  with assms show ?thesis
    by (auto simp: mqttProcessConnect_existing_def)
qed


text \<open>
  C6. A session has one field for the connection bound to it, so at most one connection
  is bound to it at any time. When an authorized CONNECT arrives for a client ID whose
  session is bound to another connection \<open>ec\<close>, \<^verbatim>\<open>mqttProcessConnect\<close> returns, and
  then: the Will of \<open>ec\<close> is cleared and nothing else of \<open>ec\<close> is changed, so that
  \<^verbatim>\<open>mqttHandleWill\<close> publishes nothing for it; \<^verbatim>\<open>closeConnection(DuplicateClientID)\<close>
  has been started for \<open>ec\<close>, in a goroutine of its own; and the session of the client
  ID is bound to the new connection \<open>c\<close>.
\<close>

theorem mqttProcessConnect_takeover:
  assumes "isClientAuthorized env c (host s) = (True, h)"
    and "sessmgr s = Some a" and "sessions a (clientID cpr) = Some es"
    and "sess_c es = Some ec"
    and "clients s ec = Some e" and "cp (c_mqtt e) = Some ecp"
    and "clients s c = Some cl" and "ec \<noteq> c"
  shows "\<exists>res s' a' es'.
           mqttProcessConnect env c cpr s = Inr (res, s')
         \<and> clients s' ec = Some (e\<lparr>c_mqtt := (c_mqtt e)\<lparr>cp := Some (ecp\<lparr>will := None\<rparr>)\<rparr>\<rparr>)
         \<and> mqttHandleWill (e\<lparr>c_mqtt := (c_mqtt e)\<lparr>cp := Some (ecp\<lparr>will := None\<rparr>)\<rparr>\<rparr>) = None
         \<and> spawned s' = spawned s @ [(ec, DuplicateClientID)]
         \<and> sessmgr s' = Some a' \<and> sessions a' (clientID cpr) = Some es'
         \<and> sess_c es' = Some c"
proof -
  let ?e' = "e\<lparr>c_mqtt := (c_mqtt e)\<lparr>cp := Some (ecp\<lparr>will := None\<rparr>)\<rparr>\<rparr>"
  let ?s0 = "s\<lparr>host := h\<rparr>"
  let ?cs = "cp_flags cpr AND mqttConnFlagCleanSession \<noteq> 0"
  have g: "getOrCreateAccountSessionManager env ?s0 = (Inr a, ?s0)"
    using assms(2) by (simp add: getOrCreateAccountSessionManager_def)
  from assms(5) have c0: "clients ?s0 ec = Some e" by simp
  from mqttProcessConnect_existing_takeover [OF assms(4) c0 assms(6), of env a c ?cs]
  obtain es' cs sessp s1 where
    ex: "mqttProcessConnect_existing env a c ?cs es ?s0 = Inr (es', cs, sessp, s1)"
    and b: "sess_c es' = Some c"
    and cl1: "clients s1 = (clients ?s0)(ec \<mapsto> ?e')"
    and sp1: "spawned s1 = spawned ?s0 @ [(ec, DuplicateClientID)]"
    by blast
  from cl1 assms(7,8) have c1: "clients s1 c = Some cl" by simp
  let ?a' = "a\<lparr>sessions := (sessions a)(clientID cpr \<mapsto> es')\<rparr>"
  have w: "mqttHandleWill ?e' = None" by (simp add: mqttHandleWill_def)
  have "\<exists>res s'. mqttProcessConnect env c cpr s = Inr (res, s')
         \<and> clients s' ec = Some ?e'
         \<and> spawned s' = spawned s @ [(ec, DuplicateClientID)]
         \<and> sessmgr s' = Some ?a'"
    using assms(1,3,7,8) g ex c1 cl1 sp1
    by (auto simp: mqttProcessConnect_def Let_def split: prod.splits)
  with w b show ?thesis by auto
qed


theorem mqttProcessConnect_takeover_witness:
  fixes env :: "unit connEnv" and E CL :: client and ES :: mqttSession
    and A :: mqttAccountSessionManager and S :: "unit srv" and W :: mqttWill
    and ECP CPR :: mqttConnectProto and P :: "subscription \<Rightarrow> unit \<times> client \<Rightarrow> (subscription option \<times> error option) \<times> unit \<times> client"
  defines "W \<equiv> \<lparr>will_topic = bytes_of ''bye'', will_message = bytes_of ''gone'' @ CR_LF,
                will_qos = 0, will_retain = False\<rparr>"
    and "ECP \<equiv> \<lparr>clientID = bytes_of ''me'', rd = 0, will = Some W, cp_flags = 4\<rparr>"
    and "CPR \<equiv> \<lparr>clientID = bytes_of ''me'', rd = 0, will = None, cp_flags = 0\<rparr>"
    and "E \<equiv> \<lparr>c_mqtt = \<lparr>cp = Some ECP, pp = None, ppi = 0, cons = None, acks = None\<rparr>,
               connectReceived = True,
               c_opts = \<lparr>Username = [], Password = [], Token = []\<rparr>, out = [], closed = None\<rparr>"
    and "CL \<equiv> \<lparr>c_mqtt = \<lparr>cp = None, pp = None, ppi = 0, cons = None, acks = None\<rparr>,
               connectReceived = False,
               c_opts = \<lparr>Username = [], Password = [], Token = []\<rparr>, out = [], closed = None\<rparr>"
    and "ES \<equiv> \<lparr>sess_c = Some 1, sess_clean = False, sess_subs = Map.empty,
                sess_cons = None, sseq = 1\<rparr>"
    and "A \<equiv> \<lparr>sessions = [bytes_of ''me'' \<mapsto> ES], sstream = True\<rparr>"
    and "S \<equiv> \<lparr>clients = [1 \<mapsto> E, 2 \<mapsto> CL], sessmgr = Some A, spawned = [], host = ()\<rparr>"
    and "P \<equiv> \<lambda>sub w. ((Some sub, None), w)"
    and "env \<equiv> \<lparr>isClientAuthorized = (\<lambda>c h. (True, h)), JetStreamEnabled = (\<lambda>h. True),
                 asm_init = (\<lambda>h. (Inl (ErrMsg ''no streams''), h)),
                 deleteConsumers = (\<lambda>cs h. h), DeleteMsg = (\<lambda>n h. h),
                 StoreMsg = (\<lambda>ps h. (Inr 2, h)), rangeSubs = (\<lambda>m. []),
                 subs_env = \<lparr>mqttSerializeRetainedMsgsForSub = (\<lambda>sub w. (sub, w)),
                             processSub = P,
                             mqttProcessJSConsumerForSubject = (\<lambda>subj sd q w. ((None, None, None), w)),
                             mqttCleanupFailedSub = (\<lambda>sub jscons jssub w. w),
                             mqttAddJSConsumer = (\<lambda>cs sd w. w),
                             updateSession = (\<lambda>fs add w. (None, w))\<rparr>\<rparr>"
  shows "\<exists>res s' a' es'.
           mqttProcessConnect env 2 CPR S = Inr (res, s')
         \<and> clients s' 1 = Some (E\<lparr>c_mqtt := (c_mqtt E)\<lparr>cp := Some (ECP\<lparr>will := None\<rparr>)\<rparr>\<rparr>)
         \<and> mqttHandleWill (E\<lparr>c_mqtt := (c_mqtt E)\<lparr>cp := Some (ECP\<lparr>will := None\<rparr>)\<rparr>\<rparr>) = None
         \<and> spawned s' = spawned S @ [(1, DuplicateClientID)]
         \<and> sessmgr s' = Some a' \<and> sessions a' (clientID CPR) = Some es'
         \<and> sess_c es' = Some 2"
proof -
  have h1: "isClientAuthorized env 2 (host S) = (True, ())" by (simp add: env_def)
  have h2: "sessmgr S = Some A" by (simp add: S_def)
  have h3: "sessions A (clientID CPR) = Some ES" by (simp add: A_def CPR_def)
  have h4: "sess_c ES = Some 1" by (simp add: ES_def)
  have h5: "clients S 1 = Some E" by (simp add: S_def)
  have h6: "cp (c_mqtt E) = Some ECP" by (simp add: E_def)
  have h7: "clients S 2 = Some CL" by (simp add: S_def)
  have h8: "(1 :: nat) \<noteq> 2" by simp
  show ?thesis by (rule mqttProcessConnect_takeover [OF h1 h2 h3 h4 h5 h6 h7 h8])
qed

end
